theory Spec2Isabelle
  imports Main "HOL-Library.Sublist"
begin

section \<open>Strings\<close>

text \<open>
  Python strings are modelled as \<^typ>\<open>string\<close> (lists of 8-bit characters), read as
  the UTF-8 encoding of the text. Every keyword, marker, pattern and command of the
  program is ASCII, and no byte of a multi-byte UTF-8 sequence is an ASCII byte, so a
  substring test for one of them gives the same answer on the encoded text.
\<close>

text \<open>\<^verbatim>\<open>sub in s\<close> for strings: \<open>sub\<close> occurs in \<open>s\<close> as a contiguous block.\<close>

fun contains :: "string \<Rightarrow> string \<Rightarrow> bool" where
  "contains [] sub = (sub = [])"
| "contains (c # cs) sub = (prefix sub (c # cs) \<or> contains cs sub)"

text \<open>
  \<^verbatim>\<open>str.lower()\<close>. An ASCII capital becomes its small letter. Two characters outside
  ASCII have a lower-case form with an ASCII letter in it: the Kelvin sign U+212A (bytes
  E2 84 AA) becomes \<^verbatim>\<open>k\<close>, and U+0130 (bytes C4 B0) becomes \<^verbatim>\<open>i\<close> followed by
  U+0307 (bytes CC 87). Every other character outside ASCII is left as it is: Python
  maps it to characters outside ASCII again, which no comparison with ASCII text tells
  apart from the original.
\<close>

definition lower_char :: "char \<Rightarrow> char" where
  "lower_char c =
     (case map_of (zip ''ABCDEFGHIJKLMNOPQRSTUVWXYZ'' ''abcdefghijklmnopqrstuvwxyz'') c of
        Some l \<Rightarrow> l
      | None \<Rightarrow> c)"

fun lower :: "string \<Rightarrow> string" where
  "lower (a # b # c # rest) =
     (if a = CHR 0xE2 \<and> b = CHR 0x84 \<and> c = CHR 0xAA then CHR ''k'' # lower rest
      else if a = CHR 0xC4 \<and> b = CHR 0xB0 then
        CHR ''i'' # CHR 0xCC # CHR 0x87 # lower (c # rest)
      else lower_char a # lower (b # c # rest))"
| "lower [a, b] =
     (if a = CHR 0xC4 \<and> b = CHR 0xB0 then [CHR ''i'', CHR 0xCC, CHR 0x87]
      else [lower_char a, lower_char b])"
| "lower [a] = [lower_char a]"
| "lower [] = []"

section \<open>app/models.py\<close>

datatype EquipmentType = CISCO_IOS | JUNIPER_JUNOS | HUAWEI | MIKROTIK

text \<open>The \<^verbatim>\<open>.value\<close> of each enum member.\<close>

fun value_of :: "EquipmentType \<Rightarrow> string" where
  "value_of CISCO_IOS = ''cisco_ios''"
| "value_of JUNIPER_JUNOS = ''juniper_junos''"
| "value_of HUAWEI = ''huawei''"
| "value_of MIKROTIK = ''mikrotik''"

section \<open>network_tools.py: the session driver\<close>

subsection \<open>Exceptions and the environment\<close>

text \<open>
  The exceptions the driver distinguishes: \<^verbatim>\<open>asyncio.TimeoutError\<close>, any other
  subclass of \<^verbatim>\<open>Exception\<close> (with its \<^verbatim>\<open>str(e)\<close>), and an exception that
  is not a subclass of \<^verbatim>\<open>Exception\<close> (\<^verbatim>\<open>CancelledError\<close>,
  \<^verbatim>\<open>KeyboardInterrupt\<close>), which no \<^verbatim>\<open>except Exception\<close> clause catches.
\<close>

datatype exn = TimeoutError | OtherException string | BaseException

fun str_of :: "exn \<Rightarrow> string" where
  "str_of (OtherException msg) = msg"
| "str_of e = []"

datatype 'a outcome = Returned 'a | Raised exn

text \<open>
  What one \<^verbatim>\<open>wait_for(stdout.read(1024), timeout=0.5)\<close> does: data arrives after
  some milliseconds, or nothing arrives for the half second and \<^verbatim>\<open>wait_for\<close> raises
  \<^verbatim>\<open>asyncio.TimeoutError\<close>, or the read raises another exception, or the task is
  cancelled.
\<close>

datatype chunk_event = Data string nat | Silence | ReadError string | ReadAbort

text \<open>What the driver did to the transport, oldest first.\<close>

datatype io_event = Sent string | StdinClose | ConnClose | WaitClosed

text \<open>
  The fields of \<^verbatim>\<open>SSHClient\<close>; a handle is \<open>True\<close> when the attribute is not
  \<^verbatim>\<open>None\<close>. The last three fields are the environment: \<open>incoming\<close> is what the
  device will send, one entry per read (a device that has run out of entries stays
  silent); \<open>faults\<close> says for each further effect in turn (a \<^verbatim>\<open>print\<close>, a sleep, a
  write, opening the connection) whether it raises, and an exhausted list means that
  nothing more raises; \<open>trace\<close> records what was done to the transport. Time is counted
  in milliseconds. The attributes \<^verbatim>\<open>port\<close> and \<^verbatim>\<open>timeout\<close> are only handed to
  the SSH library and are left out.
\<close>

record SSHClient =
  host :: string
  username :: string
  password :: "string option"
  key_filename :: "string option"
  connection :: bool
  stdin :: bool
  stdout :: bool
  stderr :: bool
  incoming :: "chunk_event list"
  faults :: "exn option list"
  trace :: "io_event list"

type_synonym 'a io = "'a outcome \<times> SSHClient"

text \<open>
  One effect: it consumes the next entry of \<open>faults\<close>. The environment may let any
  effect raise any exception; what a real console, event loop and transport do is among
  these behaviours.
\<close>

definition effect :: "SSHClient \<Rightarrow> unit io" where
  "effect c =
     (case faults c of
        [] \<Rightarrow> (Returned (), c)
      | None # fs \<Rightarrow> (Returned (), c\<lparr>faults := fs\<rparr>)
      | Some e # fs \<Rightarrow> (Raised e, c\<lparr>faults := fs\<rparr>))"

definition print_log :: "SSHClient \<Rightarrow> unit io" where
  "print_log c = effect c"

definition sleep :: "nat \<Rightarrow> SSHClient \<Rightarrow> unit io" where
  "sleep ms c = effect c"

text \<open>Sequencing: an exception of the first action skips the rest.\<close>

definition and_then :: "'a io \<Rightarrow> ('a \<Rightarrow> SSHClient \<Rightarrow> 'b io) \<Rightarrow> 'b io" where
  "and_then m f = (case m of (Raised e, c) \<Rightarrow> (Raised e, c) | (Returned v, c) \<Rightarrow> f v c)"

text \<open>\<^verbatim>\<open>self.stdin.write(data)\<close> followed by \<^verbatim>\<open>await self.stdin.drain()\<close>.\<close>

definition stdin_write :: "string \<Rightarrow> SSHClient \<Rightarrow> unit io" where
  "stdin_write data c =
     and_then (effect c) (\<lambda>_ c. (Returned (), c\<lparr>trace := trace c @ [Sent data]\<rparr>))"

subsection \<open>\_read\_until\_timeout\<close>

definition has_prompt :: "string \<Rightarrow> bool" where
  "has_prompt output =
     (CHR ''#'' \<in> set output \<or> CHR ''>'' \<in> set output \<or> CHR ''$'' \<in> set output
      \<or> CHR '':'' \<in> set output)"

text \<open>
  The \<^verbatim>\<open>while\<close> loop: \<open>elapsed\<close> is the clock minus \<^verbatim>\<open>start_time\<close>. The result
  says whether an exception left the loop, and gives the output gathered so far.
\<close>

function read_loop :: "nat \<Rightarrow> nat \<Rightarrow> string \<Rightarrow> SSHClient \<Rightarrow> exn option \<times> string \<times> SSHClient" where
  "read_loop tmo elapsed output c =
     (if \<not> elapsed < tmo then (None, output, c)
      else case incoming c of
        [] \<Rightarrow>
          if has_prompt output then (None, output, c)
          else read_loop tmo (elapsed + 500) output c
      | Data chunk ms # rest \<Rightarrow>
          if chunk \<noteq> [] then
            if has_prompt (output @ chunk) then (None, output @ chunk, c\<lparr>incoming := rest\<rparr>)
            else read_loop tmo (elapsed + ms) (output @ chunk) (c\<lparr>incoming := rest\<rparr>)
          else read_loop tmo (elapsed + ms) output (c\<lparr>incoming := rest\<rparr>)
      | Silence # rest \<Rightarrow>
          if has_prompt output then (None, output, c\<lparr>incoming := rest\<rparr>)
          else read_loop tmo (elapsed + 500) output (c\<lparr>incoming := rest\<rparr>)
      | ReadError msg # rest \<Rightarrow> (Some (OtherException msg), output, c\<lparr>incoming := rest\<rparr>)
      | ReadAbort # rest \<Rightarrow> (Some BaseException, output, c\<lparr>incoming := rest\<rparr>))"
  by pat_completeness auto
termination
  by (relation "measures [\<lambda>(tmo, elapsed, output, c). length (incoming c),
                          \<lambda>(tmo, elapsed, output, c). tmo - elapsed]") auto

declare read_loop.simps [simp del]

definition read_until_timeout :: "nat \<Rightarrow> SSHClient \<Rightarrow> string io" where
  "read_until_timeout tmo c =
     (if \<not> stdout c then (Returned [], c)
      else case read_loop tmo 0 [] c of
        (None, output, c') \<Rightarrow> (Returned output, c')
      | (Some BaseException, output, c') \<Rightarrow> (Raised BaseException, c')
      | (Some e, output, c') \<Rightarrow> and_then (print_log c') (\<lambda>_ c. (Returned output, c)))"

subsection \<open>send\_command and execute\_command\<close>

text \<open>The message of the exception raised without an active connection.\<close>

definition no_connection :: string where
  "no_connection = ''no active connection''"

definition send_command :: "SSHClient \<Rightarrow> string \<Rightarrow> nat \<Rightarrow> string io" where
  "send_command c command tmo =
     (if \<not> (stdin c \<and> stdout c) then (Raised (OtherException no_connection), c)
      else
        and_then (print_log c) (\<lambda>_ c.
        and_then (sleep 500 c) (\<lambda>_ c.
        and_then (stdin_write (command @ [CHR 0x0D, CHR 0x0A]) c) (\<lambda>_ c.
        and_then (read_until_timeout tmo c) (\<lambda>output c.
        and_then (print_log c) (\<lambda>_ c.
        (Returned output, c)))))))"

text \<open>
  A command's failure reason: the three texts \<^verbatim>\<open>execute_command\<close> can put under
  \<^verbatim>\<open>"error"\<close> (an error found in the output, a timeout with the number of seconds,
  the text of an exception).
\<close>

datatype reason = ErrorInOutput | CommandTimeout nat | ExceptionText string

record CommandResult =
  success :: bool
  command :: string
  "output" :: string
  error :: "reason option"

definition failure_keywords :: "string list" where
  "failure_keywords = [''error'', ''invalid'', ''failed'', ''incorrect'', ''%'']"

definition execute_command :: "SSHClient \<Rightarrow> string \<Rightarrow> nat \<Rightarrow> CommandResult io" where
  "execute_command c cmd tmo =
     (case send_command c cmd tmo of
        (Returned out, c') \<Rightarrow>
          (let ok = \<not> list_ex (\<lambda>kw. contains (lower out) kw) failure_keywords
           in (Returned \<lparr>success = ok, command = cmd, output = out,
                         error = (if ok then None else Some ErrorInOutput)\<rparr>, c'))
      | (Raised TimeoutError, c') \<Rightarrow>
          (Returned \<lparr>success = False, command = cmd, output = [],
                     error = Some (CommandTimeout tmo)\<rparr>, c')
      | (Raised (OtherException msg), c') \<Rightarrow>
          (Returned \<lparr>success = False, command = cmd, output = [],
                     error = Some (ExceptionText msg)\<rparr>, c')
      | (Raised BaseException, c') \<Rightarrow> (Raised BaseException, c'))"

subsection \<open>The profiles\<close>

fun get_config_mode_commands :: "EquipmentType \<Rightarrow> string list" where
  "get_config_mode_commands CISCO_IOS = [''enable'', ''configure terminal'']"
| "get_config_mode_commands JUNIPER_JUNOS = [''configure'']"
| "get_config_mode_commands HUAWEI = [''system-view'']"
| "get_config_mode_commands MIKROTIK = []"

fun get_exit_commands :: "EquipmentType \<Rightarrow> string list" where
  "get_exit_commands CISCO_IOS = [''end'', ''exit'']"
| "get_exit_commands JUNIPER_JUNOS = [''commit'', ''exit'']"
| "get_exit_commands HUAWEI = [''commit'', ''quit'']"
| "get_exit_commands MIKROTIK = []"

subsection \<open>execute\_commands\<close>

text \<open>
  The state of the \<^verbatim>\<open>try\<close> block of \<^verbatim>\<open>execute_commands\<close> at the point where it is
  left: the exception that left it (if any), \<^verbatim>\<open>all_success\<close>, \<^verbatim>\<open>results\<close>, and the
  client.
\<close>

type_synonym run = "exn option \<times> bool \<times> CommandResult list \<times> SSHClient"

definition proceed :: "run \<Rightarrow> (bool \<Rightarrow> CommandResult list \<Rightarrow> SSHClient \<Rightarrow> run) \<Rightarrow> run" where
  "proceed r k =
     (case r of
        (Some e, all_success, results, c) \<Rightarrow> (Some e, all_success, results, c)
      | (None, all_success, results, c) \<Rightarrow> k all_success results c)"

text \<open>A statement of the block that is a single effect.\<close>

definition stmt :: "unit io \<Rightarrow> bool \<Rightarrow> CommandResult list \<Rightarrow> run" where
  "stmt m all_success results =
     (case m of
        (Raised e, c) \<Rightarrow> (Some e, all_success, results, c)
      | (Returned _, c) \<Rightarrow> (None, all_success, results, c))"

text \<open>
  The loop over \<^verbatim>\<open>config_mode_commands\<close>: the first command that fails is logged,
  clears \<^verbatim>\<open>all_success\<close> and breaks the loop.
\<close>

fun entry_loop :: "string list \<Rightarrow> nat \<Rightarrow> bool \<Rightarrow> CommandResult list \<Rightarrow> SSHClient \<Rightarrow> run" where
  "entry_loop [] delay all_success results c = (None, all_success, results, c)"
| "entry_loop (cmd # cmds) delay all_success results c =
     (case execute_command c cmd 10000 of
        (Raised e, c) \<Rightarrow> (Some e, all_success, results, c)
      | (Returned result, c) \<Rightarrow>
          if \<not> success result then
            proceed (stmt (print_log c) all_success (results @ [result]))
              (\<lambda>all_success results c. (None, False, results, c))
          else
            proceed (stmt (sleep delay c) all_success (results @ [result]))
              (entry_loop cmds delay))"

text \<open>The loop over \<^verbatim>\<open>main_commands\<close>: a failure clears \<^verbatim>\<open>all_success\<close> and the loop goes on.\<close>

fun main_loop :: "string list \<Rightarrow> nat \<Rightarrow> bool \<Rightarrow> CommandResult list \<Rightarrow> SSHClient \<Rightarrow> run" where
  "main_loop [] delay all_success results c = (None, all_success, results, c)"
| "main_loop (cmd # cmds) delay all_success results c =
     (case execute_command c cmd 10000 of
        (Raised e, c) \<Rightarrow> (Some e, all_success, results, c)
      | (Returned result, c) \<Rightarrow>
          proceed (stmt (sleep delay c) (all_success \<and> success result) (results @ [result]))
            (main_loop cmds delay))"

text \<open>The loop over \<^verbatim>\<open>exit_commands\<close>: results are recorded, \<^verbatim>\<open>all_success\<close> is not touched.\<close>

fun exit_loop :: "string list \<Rightarrow> nat \<Rightarrow> bool \<Rightarrow> CommandResult list \<Rightarrow> SSHClient \<Rightarrow> run" where
  "exit_loop [] delay all_success results c = (None, all_success, results, c)"
| "exit_loop (cmd # cmds) delay all_success results c =
     (case execute_command c cmd 10000 of
        (Raised e, c) \<Rightarrow> (Some e, all_success, results, c)
      | (Returned result, c) \<Rightarrow>
          proceed (stmt (sleep delay c) all_success (results @ [result]))
            (exit_loop cmds delay))"

text \<open>The list comprehension that removes the configuration-mode commands from the caller's list.\<close>

definition main_commands :: "string list \<Rightarrow> string list \<Rightarrow> string list" where
  "main_commands commands config_mode_commands =
     filter (\<lambda>cmd. cmd \<notin> set config_mode_commands) commands"

definition try_block :: "SSHClient \<Rightarrow> string list \<Rightarrow> EquipmentType \<Rightarrow> nat \<Rightarrow> run" where
  "try_block c commands equipment_type delay =
     (let config_mode_commands = get_config_mode_commands equipment_type in
      proceed (stmt (print_log c) True []) (\<lambda>all_success results c.
      proceed (entry_loop config_mode_commands delay all_success results c) (\<lambda>all_success results c.
      proceed
        (if all_success then
           proceed (stmt (print_log c) all_success results)
             (main_loop (main_commands commands config_mode_commands) delay)
         else (None, all_success, results, c)) (\<lambda>all_success results c.
      proceed (stmt (print_log c) all_success results)
        (exit_loop (get_exit_commands equipment_type) delay)))))"

text \<open>
  The dictionary \<^verbatim>\<open>execute_commands\<close> returns. The keys \<^verbatim>\<open>"success"\<close> and
  \<^verbatim>\<open>"error"\<close> are the fields \<open>rep_success\<close> and \<open>rep_error\<close>; a report without the key
  \<^verbatim>\<open>"error"\<close> has \<open>rep_error = None\<close>.
\<close>

record ExecutionReport =
  rep_success :: bool
  equipment_type :: string
  total_commands :: nat
  successful_commands :: nat
  results :: "CommandResult list"
  rep_error :: "string option"

definition execute_commands ::
  "SSHClient \<Rightarrow> string list \<Rightarrow> EquipmentType \<Rightarrow> nat \<Rightarrow> ExecutionReport io" where
  "execute_commands c commands et delay =
     (case try_block c commands et delay of
        (None, all_success, rs, c') \<Rightarrow>
          (Returned \<lparr>rep_success = all_success, equipment_type = value_of et,
                     total_commands = length commands,
                     successful_commands = length (filter success rs),
                     results = rs, rep_error = None\<rparr>, c')
      | (Some BaseException, all_success, rs, c') \<Rightarrow> (Raised BaseException, c')
      | (Some e, all_success, rs, c') \<Rightarrow>
          and_then (print_log c') (\<lambda>_ c.
          (Returned \<lparr>rep_success = False, equipment_type = value_of et,
                     total_commands = length commands,
                     successful_commands = 0,
                     results = rs, rep_error = Some (str_of e)\<rparr>, c)))"

subsection \<open>connect and disconnect\<close>

definition truthy :: "string option \<Rightarrow> bool" where
  "truthy s = (case s of None \<Rightarrow> False | Some v \<Rightarrow> v \<noteq> [])"

text \<open>The message of the \<^verbatim>\<open>ValueError\<close> raised when neither credential is given.\<close>

definition no_credentials :: string where
  "no_credentials = ''password or key_filename is required''"

text \<open>
  \<^verbatim>\<open>connect\<close>: opening the connection and opening the session are effects of the
  environment; then the warm-up drain. Any \<^verbatim>\<open>Exception\<close> is logged and gives
  \<open>False\<close>.
\<close>

definition connect :: "SSHClient \<Rightarrow> bool io" where
  "connect c =
     (case
        (if truthy (password c) \<or> truthy (key_filename c) then
           and_then (effect c) (\<lambda>_ c.
           and_then (effect (c\<lparr>connection := True\<rparr>)) (\<lambda>_ c.
           and_then (sleep 2000 (c\<lparr>stdin := True, stdout := True, stderr := True\<rparr>)) (\<lambda>_ c.
           and_then (read_until_timeout 3000 c) (\<lambda>initial_output c.
           and_then (print_log c) (\<lambda>_ c.
           (Returned True, c))))))
         else (Raised (OtherException no_credentials), c)) of
        (Returned b, c') \<Rightarrow> (Returned b, c')
      | (Raised BaseException, c') \<Rightarrow> (Raised BaseException, c')
      | (Raised e, c') \<Rightarrow> and_then (print_log c') (\<lambda>_ c. (Returned False, c)))"

text \<open>
  \<^verbatim>\<open>disconnect\<close>: the write side is closed if there is one; the connection is closed
  and its closing awaited if there is one; the four attributes are reset. The closing
  calls are taken not to raise.
\<close>

definition disconnect :: "SSHClient \<Rightarrow> SSHClient" where
  "disconnect c =
     (let c1 = (if stdin c then c\<lparr>trace := trace c @ [StdinClose]\<rparr> else c);
          c2 = (if connection c1 then c1\<lparr>trace := trace c1 @ [ConnClose, WaitClosed]\<rparr> else c1)
      in c2\<lparr>connection := False, stdin := False, stdout := False, stderr := False\<rparr>)"

subsection \<open>execute\_commands\_ssh\<close>

text \<open>\<^verbatim>\<open>EquipmentType(value)\<close>: the member with that value; \<open>None\<close> is the \<^verbatim>\<open>ValueError\<close>.\<close>

definition EquipmentType_of :: "string \<Rightarrow> EquipmentType option" where
  "EquipmentType_of v = find (\<lambda>t. value_of t = v) [CISCO_IOS, JUNIPER_JUNOS, HUAWEI, MIKROTIK]"

text \<open>
  The conversion of the device type string at the start of \<^verbatim>\<open>execute_commands_ssh\<close>:
  the member with the lower-cased value; after a \<^verbatim>\<open>ValueError\<close> the handler prints
  its log line and then takes \<^verbatim>\<open>CISCO_IOS\<close>.
\<close>

definition convert_device_type :: "string \<Rightarrow> SSHClient \<Rightarrow> EquipmentType io" where
  "convert_device_type device_type_str c =
     (case EquipmentType_of (lower device_type_str) of
        Some t \<Rightarrow> (Returned t, c)
      | None \<Rightarrow> and_then (print_log c) (\<lambda>_ c. (Returned CISCO_IOS, c)))"

text \<open>\<^verbatim>\<open>sep.join(xs)\<close>.\<close>

fun join :: "string \<Rightarrow> string list \<Rightarrow> string" where
  "join sep [] = []"
| "join sep [x] = x"
| "join sep (x # y # ys) = x @ sep @ join sep (y # ys)"

text \<open>
  What \<^verbatim>\<open>execute_commands_ssh\<close> returns: the joined blocks of the successful commands,
  or the message about the first failed command (with its output, or its reason when
  the output is empty), or the message about the batch (with the report's error, if it
  has one).
\<close>

datatype detail = OutputText string | Reason "reason option"

datatype reply = Blocks string | CommandError string detail | BatchError "string option"

definition reply_of :: "ExecutionReport \<Rightarrow> reply" where
  "reply_of execution_result =
     (if rep_success execution_result then
        Blocks (join [CHR 0x0A]
          (map (\<lambda>r. ''Command: '' @ command r @ [CHR 0x0A] @ ''Output: '' @ output r @ [CHR 0x0A])
            (filter success (results execution_result))))
      else
        (case filter (\<lambda>r. \<not> success r) (results execution_result) of
           first_error # _ \<Rightarrow>
             CommandError (command first_error)
               (if output first_error \<noteq> [] then OutputText (output first_error)
                else Reason (error first_error))
         | [] \<Rightarrow> BatchError (rep_error execution_result)))"

text \<open>The message of the exception raised when \<^verbatim>\<open>connect\<close> gives \<open>False\<close>.\<close>

definition connect_failed :: "string \<Rightarrow> string \<Rightarrow> string" where
  "connect_failed ip user = ''could not connect to '' @ ip @ '' as '' @ user"

text \<open>The client \<^verbatim>\<open>SSHClient(host=ip, username=username, password=password)\<close>, in an environment.\<close>

definition new_client ::
  "string \<Rightarrow> string \<Rightarrow> string \<Rightarrow> chunk_event list \<Rightarrow> exn option list \<Rightarrow> SSHClient" where
  "new_client ip user pw device env_faults =
     \<lparr>host = ip, username = user, password = Some pw, key_filename = None,
      connection = False, stdin = False, stdout = False, stderr = False,
      incoming = device, faults = env_faults, trace = []\<rparr>"

text \<open>The \<^verbatim>\<open>try\<close> ... \<^verbatim>\<open>finally\<close> statement: \<^verbatim>\<open>disconnect\<close> runs however the block is left.\<close>

definition with_session :: "SSHClient \<Rightarrow> string list \<Rightarrow> EquipmentType \<Rightarrow> reply io" where
  "with_session c commands et =
     (case and_then (execute_commands c commands et 1000)
             (\<lambda>execution_result c. (Returned (reply_of execution_result), c)) of
        (r, c') \<Rightarrow> (r, disconnect c'))"

text \<open>
  \<^verbatim>\<open>execute_commands_ssh\<close>, with the environment of the new client as two more
  arguments. The client record is built first because it carries the environment; the
  constructor has no effect.
\<close>

definition execute_commands_ssh ::
  "chunk_event list \<Rightarrow> exn option list \<Rightarrow> string list \<Rightarrow> string \<Rightarrow> string \<Rightarrow> string \<Rightarrow> string \<Rightarrow> reply io" where
  "execute_commands_ssh device env_faults commands ip user pw device_type_str =
     and_then (convert_device_type device_type_str (new_client ip user pw device env_faults))
       (\<lambda>device_type_enum c.
          and_then (connect c) (\<lambda>connected c.
            if connected then with_session c commands device_type_enum
            else (Raised (OtherException (connect_failed ip user)), c)))"

section \<open>tools: ConfigurationValidator\<close>

text \<open>
  The dangerous patterns are regular expressions of two shapes: a literal text between
  two word boundaries (\<^verbatim>\<open>\bwrite memory\b\<close>), and a literal text alone
  (\<^verbatim>\<open>/system reboot\<close>). \<^verbatim>\<open>re.search\<close> is modelled for these two shapes.
\<close>

datatype pattern = WordBounded string | Literal string

text \<open>
  The characters \<^verbatim>\<open>\w\<close> matches, in ASCII text. A byte outside ASCII is no word
  character here, whereas Python also counts letters and digits outside ASCII as word
  characters: word boundaries are exact for ASCII commands.
\<close>

definition is_word_char :: "char \<Rightarrow> bool" where
  "is_word_char c =
     (c \<in> set ''abcdefghijklmnopqrstuvwxyzABCDEFGHIJKLMNOPQRSTUVWXYZ0123456789_'')"

text \<open>
  Whether \<^verbatim>\<open>\b\<close> \<open>pat\<close> \<^verbatim>\<open>\b\<close> matches at the start of \<open>s\<close>, where \<open>after_word\<close>
  says whether the character in front of \<open>s\<close> is a word character: at a word boundary
  exactly one of the two neighbouring positions holds a word character.
\<close>

definition matches_here :: "string \<Rightarrow> bool \<Rightarrow> string \<Rightarrow> bool" where
  "matches_here pat after_word s =
     (prefix pat s
      \<and> after_word \<noteq> (s \<noteq> [] \<and> is_word_char (hd s))
      \<and> (if pat = [] then after_word else is_word_char (last pat))
          \<noteq> (drop (length pat) s \<noteq> [] \<and> is_word_char (hd (drop (length pat) s))))"

fun search_word :: "string \<Rightarrow> bool \<Rightarrow> string \<Rightarrow> bool" where
  "search_word pat after_word [] = matches_here pat after_word []"
| "search_word pat after_word (c # cs) =
     (matches_here pat after_word (c # cs) \<or> search_word pat (is_word_char c) cs)"

fun re_search :: "pattern \<Rightarrow> string \<Rightarrow> bool" where
  "re_search (WordBounded pat) s = search_word pat False s"
| "re_search (Literal pat) s = contains s pat"

text \<open>
  The table \<^verbatim>\<open>dangerous_patterns\<close>. The descriptions are Russian in the source and
  are given here in English; the part in parentheses is the source's.
\<close>

fun dangerous_patterns :: "EquipmentType \<Rightarrow> (pattern \<times> string) list" where
  "dangerous_patterns CISCO_IOS =
     [(WordBounded ''erase'', ''Erasing the configuration (erase)''),
      (WordBounded ''delete'', ''Deleting files (delete)''),
      (WordBounded ''reload'', ''Reloading the equipment (reload)''),
      (WordBounded ''format'', ''Formatting (format)''),
      (WordBounded ''write memory'', ''Saving the configuration (write memory)''),
      (WordBounded ''write'', ''Saving the configuration (write)''),
      (WordBounded ''no shutdown'', ''Enabling an interface (no shutdown)''),
      (WordBounded ''shutdown'', ''Disabling an interface (shutdown)'')]"
| "dangerous_patterns JUNIPER_JUNOS =
     [(WordBounded ''commit'', ''Applying the changes (commit)''),
      (WordBounded ''request system reboot'', ''Rebooting the system (request system reboot)''),
      (WordBounded ''request system halt'', ''Halting the system (request system halt)'')]"
| "dangerous_patterns HUAWEI =
     [(WordBounded ''save'', ''Saving the configuration (save)''),
      (WordBounded ''reset'', ''Resetting the settings (reset)''),
      (WordBounded ''reboot'', ''Rebooting (reboot)''),
      (WordBounded ''shutdown'', ''Disabling an interface (shutdown)'')]"
| "dangerous_patterns MIKROTIK =
     [(Literal ''/system reboot'', ''Rebooting (reboot)''),
      (Literal ''/system shutdown'', ''Shutting down (shutdown)''),
      (Literal ''/interface disable'', ''Disabling an interface'')]"

definition safe_keywords :: "string list" where
  "safe_keywords = [''show'', ''display'', ''get'', ''view'', ''print'']"

text \<open>The warning text \<^verbatim>\<open>f"WARNING: {description}: {cmd}"\<close>.\<close>

definition warning :: "string \<Rightarrow> string \<Rightarrow> string" where
  "warning description cmd = ''WARNING: '' @ description @ '': '' @ cmd"

text \<open>The inner loop, over the patterns, for one command; it appends to \<^verbatim>\<open>warnings\<close>.\<close>

fun pattern_loop :: "(pattern \<times> string) list \<Rightarrow> string \<Rightarrow> string list \<Rightarrow> string list" where
  "pattern_loop [] cmd warnings = warnings"
| "pattern_loop ((pat, description) # rest) cmd warnings =
     pattern_loop rest cmd
       (if re_search pat (lower cmd) then
          (if \<not> list_ex (\<lambda>safe. contains (lower cmd) safe) safe_keywords
           then warnings @ [warning description cmd]
           else warnings)
        else warnings)"

text \<open>The outer loop, over the commands.\<close>

fun command_loop :: "(pattern \<times> string) list \<Rightarrow> string list \<Rightarrow> string list \<Rightarrow> string list" where
  "command_loop current_patterns [] warnings = warnings"
| "command_loop current_patterns (cmd # cmds) warnings =
     command_loop current_patterns cmds (pattern_loop current_patterns cmd warnings)"

record ValidationVerdict =
  is_safe :: bool
  warnings :: "string list"
  dangerous_commands_count :: nat

definition validate_commands :: "string list \<Rightarrow> EquipmentType \<Rightarrow> ValidationVerdict" where
  "validate_commands commands et =
     (let ws = command_loop (dangerous_patterns et) commands []
      in \<lparr>is_safe = (length ws = 0), warnings = ws, dangerous_commands_count = length ws\<rparr>)"

text \<open>
  The specification's description of the warnings, to compare with the loops: for each
  command in order that contains no read-only marker, one warning per pattern of the
  profile that matches the command case-insensitively, in the order of the patterns.
\<close>

definition has_read_only_marker :: "string \<Rightarrow> bool" where
  "has_read_only_marker cmd = list_ex (\<lambda>marker. contains (lower cmd) marker) safe_keywords"

definition expected_warnings :: "(pattern \<times> string) list \<Rightarrow> string list \<Rightarrow> string list" where
  "expected_warnings rules commands =
     concat (map (\<lambda>cmd.
       if has_read_only_marker cmd then []
       else map (\<lambda>rule. warning (snd rule) cmd)
              (filter (\<lambda>rule. re_search (fst rule) (lower cmd)) rules)) commands)"

section \<open>Notions used to state the properties\<close>

text \<open>The events of a trace that close something.\<close>

fun is_close :: "io_event \<Rightarrow> bool" where
  "is_close (Sent data) = False"
| "is_close e = True"

text \<open>
  Two states of a client with the same handles and the same closing events in their
  traces.
\<close>

definition same_transport :: "SSHClient \<Rightarrow> SSHClient \<Rightarrow> bool" where
  "same_transport c c' =
     (stdin c' = stdin c \<and> stdout c' = stdout c \<and> connection c' = connection c
      \<and> filter is_close (trace c') = filter is_close (trace c))"

section \<open>Example sessions\<close>

text \<open>An established session: the handles are set, nothing has been sent or closed.\<close>

definition session :: "chunk_event list \<Rightarrow> exn option list \<Rightarrow> SSHClient" where
  "session device env_faults =
     \<lparr>host = ''192.0.2.1'', username = ''admin'', password = Some ''secret'',
      key_filename = None, connection = True, stdin = True, stdout = True, stderr = True,
      incoming = device, faults = env_faults, trace = []\<rparr>"

text \<open>A Cisco device that rejects \<^verbatim>\<open>enable\<close> and then stays silent.\<close>

definition refusing_device :: "chunk_event list" where
  "refusing_device = [Data ''% Bad secrets Router>'' 40]"

text \<open>A Cisco device that accepts every command but the fourth.\<close>

definition cisco_device :: "chunk_event list" where
  "cisco_device =
     [Data ''Router#'' 40, Data ''Router(config)#'' 30, Data ''R1(config)#'' 30,
      Data ''% Invalid input detected R1(config)#'' 20, Data ''R1(config)#'' 20,
      Data ''R1#'' 20, Data ''R1>'' 20]"

text \<open>A MikroTik device that answers two commands.\<close>

definition mikrotik_device :: "chunk_event list" where
  "mikrotik_device = [Data ''[admin@MikroTik] > '' 20, Data ''[admin@r1] > '' 20]"

text \<open>
  An environment in which the twelfth effect raises: for a Cisco batch whose entry
  commands succeed that is the \<^verbatim>\<open>print\<close> of the filtered main commands.
\<close>

definition print_fails :: "exn option list" where
  "print_fails =
     [None, None, None, None, None, None, None, None, None, None, None,
      Some (OtherException ''codec cannot encode character'')]"

text \<open>The reports of three batches on these devices.\<close>

definition refused_report :: ExecutionReport where
  "refused_report =
     \<lparr>rep_success = False, equipment_type = ''cisco_ios'', total_commands = 1,
      successful_commands = 2,
      results =
        [\<lparr>success = False, command = ''enable'', output = ''% Bad secrets Router>'',
          error = Some ErrorInOutput\<rparr>,
         \<lparr>success = True, command = ''end'', output = [], error = None\<rparr>,
         \<lparr>success = True, command = ''exit'', output = [], error = None\<rparr>],
      rep_error = None\<rparr>"

definition cisco_report :: ExecutionReport where
  "cisco_report =
     \<lparr>rep_success = False, equipment_type = ''cisco_ios'', total_commands = 4,
      successful_commands = 6,
      results =
        [\<lparr>success = True, command = ''enable'', output = ''Router#'', error = None\<rparr>,
         \<lparr>success = True, command = ''configure terminal'', output = ''Router(config)#'',
          error = None\<rparr>,
         \<lparr>success = True, command = ''hostname R1'', output = ''R1(config)#'', error = None\<rparr>,
         \<lparr>success = False, command = ''frobnicate'',
          output = ''% Invalid input detected R1(config)#'', error = Some ErrorInOutput\<rparr>,
         \<lparr>success = True, command = ''no ip domain-lookup'', output = ''R1(config)#'',
          error = None\<rparr>,
         \<lparr>success = True, command = ''end'', output = ''R1#'', error = None\<rparr>,
         \<lparr>success = True, command = ''exit'', output = ''R1>'', error = None\<rparr>],
      rep_error = None\<rparr>"

definition mikrotik_report :: ExecutionReport where
  "mikrotik_report =
     \<lparr>rep_success = True, equipment_type = ''mikrotik'', total_commands = 2,
      successful_commands = 2,
      results =
        [\<lparr>success = True, command = ''/system identity set name=r1'',
          output = ''[admin@MikroTik] > '', error = None\<rparr>,
         \<lparr>success = True, command = ''/ip address print'', output = ''[admin@r1] > '',
          error = None\<rparr>],
      rep_error = None\<rparr>"

text \<open>
  A caller command with a character outside ASCII (the UTF-8 bytes of an accented
  letter), and the report of the batch with this command in the environment
  \<open>print_fails\<close>.
\<close>

definition accented_command :: string where
  "accented_command = ''description caf'' @ [CHR 0xC3, CHR 0xA9]"

definition partial_report :: ExecutionReport where
  "partial_report =
     \<lparr>rep_success = False, equipment_type = ''cisco_ios'', total_commands = 1,
      successful_commands = 0,
      results =
        [\<lparr>success = True, command = ''enable'', output = ''Router#'', error = None\<rparr>,
         \<lparr>success = True, command = ''configure terminal'', output = ''Router(config)#'',
          error = None\<rparr>],
      rep_error = Some ''codec cannot encode character''\<rparr>"

text \<open>
  A device that greets and answers one command, and an environment in which the tenth
  effect of an invocation is cancelled: the sleep after the first entry command.
\<close>

definition welcome_device :: "chunk_event list" where
  "welcome_device = [Data ''Router>'' 5, Data ''Router#'' 20]"

definition cancelled :: "exn option list" where
  "cancelled = [None, None, None, None, None, None, None, None, None, Some BaseException]"

text \<open>
  An environment in which the first effect raises: the console cannot encode the text
  it is asked to print.
\<close>

definition ascii_console :: "exn option list" where
  "ascii_console = [Some (OtherException ''ascii codec cannot encode characters'')]"

lemmas run_defs =
  execute_commands_def try_block_def proceed_def stmt_def print_log_def sleep_def effect_def
  and_then_def execute_command_def send_command_def stdin_write_def read_until_timeout_def
  read_loop.simps has_prompt_def failure_keywords_def lower_char_def
  main_commands_def session_def refusing_device_def cisco_device_def mikrotik_device_def
  print_fails_def accented_command_def welcome_device_def cancelled_def

lemmas ssh_defs =
  execute_commands_ssh_def convert_device_type_def EquipmentType_of_def
  new_client_def connect_def truthy_def with_session_def disconnect_def reply_of_def

section \<open>The shape of a batch\<close>

text \<open>Each loop appends to \<^verbatim>\<open>results\<close> the results of an initial segment of its commands, in order.\<close>

lemma execute_command_command:
  "execute_command c cmd t = (Returned r, c') \<Longrightarrow> command r = cmd"
  by (auto simp: execute_command_def Let_def split: prod.splits outcome.splits exn.splits)

lemma stmt_E:
  "stmt m a rs = (ex, ok, rs', c') \<Longrightarrow> ok = a \<and> rs' = rs"
  by (auto simp: stmt_def split: prod.splits outcome.splits)

lemma proceed_E:
  "proceed r k = (ex, ok, rs, c) \<Longrightarrow>
     (\<exists>e. ex = Some e \<and> r = (Some e, ok, rs, c)) \<or>
     (\<exists>ok1 rs1 c1. r = (None, ok1, rs1, c1) \<and> k ok1 rs1 c1 = (ex, ok, rs, c))"
  by (auto simp: proceed_def split: prod.splits option.splits)

lemma entry_loop_shape:
  "entry_loop cmds d True rs c = (ex, ok', rs', c') \<Longrightarrow>
     \<exists>new. rs' = rs @ new \<and> map command new = take (length new) cmds
        \<and> list_all success (butlast new)
        \<and> (ex = None \<longrightarrow>
              (if ok' then length new = length cmds \<and> list_all success new
               else new \<noteq> [] \<and> \<not> success (last new)))"
proof (induction cmds arbitrary: rs c)
  case Nil
  then show ?case by simp
next
  case (Cons cmd cmds)
  show ?case
  proof (cases "execute_command c cmd 10000")
    case (Pair o1 c1)
    show ?thesis
    proof (cases o1)
      case (Raised e)
      with Pair Cons.prems show ?thesis by auto
    next
      case (Returned r)
      have cr: "command r = cmd" using Pair Returned execute_command_command by blast
      show ?thesis
      proof (cases "success r")
        case False
        with Pair Returned Cons.prems
        have "proceed (stmt (print_log c1) True (rs @ [r]))
                (\<lambda>all_success results c. (None, False, results, c)) = (ex, ok', rs', c')"
          by simp
        from proceed_E[OF this] have "rs' = rs @ [r] \<and> (ex = None \<longrightarrow> \<not> ok')"
        proof (elim disjE exE conjE)
          fix e assume "ex = Some e" "stmt (print_log c1) True (rs @ [r]) = (Some e, ok', rs', c')"
          from stmt_E[OF this(2)] \<open>ex = Some e\<close> show ?thesis by simp
        next
          fix ok1 rs1 c2
          assume "stmt (print_log c1) True (rs @ [r]) = (None, ok1, rs1, c2)"
             and "(None, False, rs1, c2) = (ex, ok', rs', c')"
          from stmt_E[OF this(1)] this(2) show ?thesis by auto
        qed
        with cr False show ?thesis by auto
      next
        case True
        with Pair Returned Cons.prems
        have p: "proceed (stmt (sleep d c1) True (rs @ [r])) (entry_loop cmds d) = (ex, ok', rs', c')"
          by simp
        from proceed_E[OF p] show ?thesis
        proof (elim disjE exE conjE)
          fix e assume "ex = Some e" "stmt (sleep d c1) True (rs @ [r]) = (Some e, ok', rs', c')"
          from stmt_E[OF this(2)] \<open>ex = Some e\<close> cr show ?thesis by simp
        next
          fix ok1 rs1 c2
          assume s: "stmt (sleep d c1) True (rs @ [r]) = (None, ok1, rs1, c2)"
             and k: "entry_loop cmds d ok1 rs1 c2 = (ex, ok', rs', c')"
          from stmt_E[OF s] have e1: "ok1 = True" "rs1 = rs @ [r]" by auto
          from Cons.IH[OF k[unfolded e1]] obtain new where
            n: "rs' = (rs @ [r]) @ new" "map command new = take (length new) cmds"
               "list_all success (butlast new)"
               "ex = None \<longrightarrow> (if ok' then length new = length cmds \<and> list_all success new
               else new \<noteq> [] \<and> \<not> success (last new))" by blast
          show ?thesis
            apply (rule exI[of _ "r # new"])
            using n cr True by (auto split: if_splits)
        qed
      qed
    qed
  qed
qed

lemma main_loop_shape:
  "main_loop cmds d ok rs c = (ex, ok', rs', c') \<Longrightarrow>
     \<exists>new. rs' = rs @ new \<and> map command new = take (length new) cmds
        \<and> (ex = None \<longrightarrow> length new = length cmds \<and> ok' = (ok \<and> list_all success new))"
proof (induction cmds arbitrary: ok rs c)
  case Nil
  then show ?case by simp
next
  case (Cons cmd cmds)
  show ?case
  proof (cases "execute_command c cmd 10000")
    case (Pair o1 c1)
    show ?thesis
    proof (cases o1)
      case (Raised e)
      with Pair Cons.prems show ?thesis by auto
    next
      case (Returned r)
      have cr: "command r = cmd" using Pair Returned execute_command_command by blast
      from Pair Returned Cons.prems
      have p: "proceed (stmt (sleep d c1) (ok \<and> success r) (rs @ [r])) (main_loop cmds d) = (ex, ok', rs', c')"
        by simp
      from proceed_E[OF p] show ?thesis
      proof (elim disjE exE conjE)
        fix e assume "ex = Some e" "stmt (sleep d c1) (ok \<and> success r) (rs @ [r]) = (Some e, ok', rs', c')"
        from stmt_E[OF this(2)] \<open>ex = Some e\<close> cr show ?thesis by simp
      next
        fix ok1 rs1 c2
        assume s: "stmt (sleep d c1) (ok \<and> success r) (rs @ [r]) = (None, ok1, rs1, c2)"
           and k: "main_loop cmds d ok1 rs1 c2 = (ex, ok', rs', c')"
        from stmt_E[OF s] have e1: "ok1 = (ok \<and> success r)" "rs1 = rs @ [r]" by auto
        from Cons.IH[OF k[unfolded e1]] obtain new where
          n: "rs' = (rs @ [r]) @ new" "map command new = take (length new) cmds"
             "ex = None \<longrightarrow> length new = length cmds \<and> ok' = ((ok \<and> success r) \<and> list_all success new)"
          by blast
        show ?thesis
          apply (rule exI[of _ "r # new"])
          using n cr by auto
      qed
    qed
  qed
qed

lemma exit_loop_shape:
  "exit_loop cmds d ok rs c = (ex, ok', rs', c') \<Longrightarrow>
     \<exists>new. rs' = rs @ new \<and> map command new = take (length new) cmds \<and> ok' = ok
        \<and> (ex = None \<longrightarrow> length new = length cmds)"
proof (induction cmds arbitrary: rs c)
  case Nil
  then show ?case by simp
next
  case (Cons cmd cmds)
  show ?case
  proof (cases "execute_command c cmd 10000")
    case (Pair o1 c1)
    show ?thesis
    proof (cases o1)
      case (Raised e)
      with Pair Cons.prems show ?thesis by auto
    next
      case (Returned r)
      have cr: "command r = cmd" using Pair Returned execute_command_command by blast
      from Pair Returned Cons.prems
      have p: "proceed (stmt (sleep d c1) ok (rs @ [r])) (exit_loop cmds d) = (ex, ok', rs', c')"
        by simp
      from proceed_E[OF p] show ?thesis
      proof (elim disjE exE conjE)
        fix e assume "ex = Some e" "stmt (sleep d c1) ok (rs @ [r]) = (Some e, ok', rs', c')"
        from stmt_E[OF this(2)] \<open>ex = Some e\<close> cr show ?thesis by simp
      next
        fix ok1 rs1 c2
        assume s: "stmt (sleep d c1) ok (rs @ [r]) = (None, ok1, rs1, c2)"
           and k: "exit_loop cmds d ok1 rs1 c2 = (ex, ok', rs', c')"
        from stmt_E[OF s] have e1: "ok1 = ok" "rs1 = rs @ [r]" by auto
        from Cons.IH[OF k[unfolded e1]] obtain new where
          n: "rs' = (rs @ [r]) @ new" "map command new = take (length new) cmds" "ok' = ok"
             "ex = None \<longrightarrow> length new = length cmds"
          by blast
        show ?thesis
          apply (rule exI[of _ "r # new"])
          using n cr by auto
      qed
    qed
  qed
qed

text \<open>
  A \<^verbatim>\<open>try\<close> block that ends without an exception has recorded the entry commands up
  to the first failure, then the main commands if no entry command failed, then the exit
  commands.
\<close>

lemma try_block_normal:
  assumes "try_block c commands et d = (None, ok, rs, c')"
  shows "\<exists>re rm rx. rs = re @ rm @ rx
           \<and> map command rx = get_exit_commands et
           \<and> map command re = take (length re) (get_config_mode_commands et)
           \<and> list_all success (butlast re)
           \<and> (if ok \<or> list_all success re
               then length re = length (get_config_mode_commands et) \<and> list_all success re
                    \<and> map command rm = main_commands commands (get_config_mode_commands et)
                    \<and> ok = list_all success rm
               else re \<noteq> [] \<and> \<not> success (last re) \<and> rm = [] \<and> \<not> ok)"
proof -
  let ?E = "get_config_mode_commands et"
  let ?M = "main_commands commands ?E"
  let ?X = "get_exit_commands et"
  from assms have
    "proceed (stmt (print_log c) True []) (\<lambda>all_success results c.
      proceed (entry_loop ?E d all_success results c) (\<lambda>all_success results c.
      proceed
        (if all_success then
           proceed (stmt (print_log c) all_success results) (main_loop ?M d)
         else (None, all_success, results, c)) (\<lambda>all_success results c.
      proceed (stmt (print_log c) all_success results) (exit_loop ?X d))))
     = (None, ok, rs, c')"
    by (simp add: try_block_def Let_def)
  from proceed_E[OF this] obtain ok1 rs1 c1 where
    s1: "stmt (print_log c) True [] = (None, ok1, rs1, c1)" and
    k1: "proceed (entry_loop ?E d ok1 rs1 c1) (\<lambda>all_success results c.
      proceed
        (if all_success then
           proceed (stmt (print_log c) all_success results) (main_loop ?M d)
         else (None, all_success, results, c)) (\<lambda>all_success results c.
      proceed (stmt (print_log c) all_success results) (exit_loop ?X d))) = (None, ok, rs, c')"
    by auto
  from stmt_E[OF s1] have e1: "ok1 = True" "rs1 = []" by auto
  from proceed_E[OF k1] obtain ok2 rs2 c2 where
    s2: "entry_loop ?E d ok1 rs1 c1 = (None, ok2, rs2, c2)" and
    k2: "proceed
        (if ok2 then
           proceed (stmt (print_log c2) ok2 rs2) (main_loop ?M d)
         else (None, ok2, rs2, c2)) (\<lambda>all_success results c.
      proceed (stmt (print_log c) all_success results) (exit_loop ?X d)) = (None, ok, rs, c')"
    by auto
  from entry_loop_shape[OF s2[unfolded e1]] have
    re: "map command rs2 = take (length rs2) ?E" "list_all success (butlast rs2)"
        "if ok2 then length rs2 = length ?E \<and> list_all success rs2
         else rs2 \<noteq> [] \<and> \<not> success (last rs2)"
    by auto
  from proceed_E[OF k2] obtain ok3 rs3 c3 where
    s3: "(if ok2 then proceed (stmt (print_log c2) ok2 rs2) (main_loop ?M d)
          else (None, ok2, rs2, c2)) = (None, ok3, rs3, c3)" and
    k3: "proceed (stmt (print_log c3) ok3 rs3) (exit_loop ?X d) = (None, ok, rs, c')"
    by auto
  have rm: "\<exists>rm. rs3 = rs2 @ rm \<and>
                (if ok2 then map command rm = ?M \<and> ok3 = list_all success rm
                 else rm = [] \<and> \<not> ok3)"
  proof (cases ok2)
    case False
    with s3 show ?thesis by simp
  next
    case True
    with s3 have "proceed (stmt (print_log c2) True rs2) (main_loop ?M d) = (None, ok3, rs3, c3)"
      by simp
    from proceed_E[OF this] obtain oka rsa ca where
      sa: "stmt (print_log c2) True rs2 = (None, oka, rsa, ca)" and
      ka: "main_loop ?M d oka rsa ca = (None, ok3, rs3, c3)" by auto
    from stmt_E[OF sa] have ea: "oka = True" "rsa = rs2" by auto
    from main_loop_shape[OF ka[unfolded ea]] True show ?thesis by auto
  qed
  then obtain rm where rm': "rs3 = rs2 @ rm"
     "if ok2 then map command rm = ?M \<and> ok3 = list_all success rm else rm = [] \<and> \<not> ok3"
    by blast
  from proceed_E[OF k3] obtain ok4 rs4 c4 where
    s4: "stmt (print_log c3) ok3 rs3 = (None, ok4, rs4, c4)" and
    k4: "exit_loop ?X d ok4 rs4 c4 = (None, ok, rs, c')" by auto
  from stmt_E[OF s4] have e4: "ok4 = ok3" "rs4 = rs3" by auto
  from exit_loop_shape[OF k4[unfolded e4]] obtain rx where
    rx: "rs = rs3 @ rx" "map command rx = ?X" "ok = ok3" by auto
  show ?thesis
    apply (rule exI[of _ rs2], rule exI[of _ rm], rule exI[of _ rx])
    using re rm' rx by (auto split: if_splits simp: list_all_iff)
qed

text \<open>However the block is left, the recorded commands are an initial segment of such a sequence.\<close>

lemma try_block_attempted:
  assumes "try_block c commands et d = (ex, ok, rs, c')"
  shows "(\<exists>n. prefix (map command rs) (take n (get_config_mode_commands et) @ get_exit_commands et))
         \<or> prefix (map command rs)
              (get_config_mode_commands et
               @ main_commands commands (get_config_mode_commands et)
               @ get_exit_commands et)"
proof -
  let ?E = "get_config_mode_commands et"
  let ?M = "main_commands commands ?E"
  let ?X = "get_exit_commands et"
  let ?A = "\<lambda>rs. \<exists>n. prefix (map command rs) (take n ?E @ ?X)"
  let ?B = "\<lambda>rs. prefix (map command rs) (?E @ ?M @ ?X)"
  have tk: "\<And>n (xs::string list) ys. prefix (take n xs) (xs @ ys)"
    by (metis append_take_drop_id prefix_append prefixI take_is_prefix)
  from assms have
    "proceed (stmt (print_log c) True []) (\<lambda>all_success results c.
      proceed (entry_loop ?E d all_success results c) (\<lambda>all_success results c.
      proceed
        (if all_success then
           proceed (stmt (print_log c) all_success results) (main_loop ?M d)
         else (None, all_success, results, c)) (\<lambda>all_success results c.
      proceed (stmt (print_log c) all_success results) (exit_loop ?X d))))
     = (ex, ok, rs, c')"
    by (simp add: try_block_def Let_def)
  from proceed_E[OF this] show ?thesis
  proof (elim disjE exE conjE)
    fix e assume "stmt (print_log c) True [] = (Some e, ok, rs, c')"
    from stmt_E[OF this] show ?thesis by simp
  next
    fix ok1 rs1 c1
    assume s1: "stmt (print_log c) True [] = (None, ok1, rs1, c1)" and
      k1: "proceed (entry_loop ?E d ok1 rs1 c1) (\<lambda>all_success results c.
        proceed
          (if all_success then
             proceed (stmt (print_log c) all_success results) (main_loop ?M d)
           else (None, all_success, results, c)) (\<lambda>all_success results c.
        proceed (stmt (print_log c) all_success results) (exit_loop ?X d))) = (ex, ok, rs, c')"
    from stmt_E[OF s1] have e1: "ok1 = True" "rs1 = []" by auto
    from proceed_E[OF k1] show ?thesis
    proof (elim disjE exE conjE)
      fix e assume "entry_loop ?E d ok1 rs1 c1 = (Some e, ok, rs, c')"
      from entry_loop_shape[OF this[unfolded e1]]
      have "map command rs = take (length rs) ?E" by auto
      then have "?B rs" using tk by metis
      then show ?thesis by blast
    next
      fix ok2 rs2 c2
      assume s2: "entry_loop ?E d ok1 rs1 c1 = (None, ok2, rs2, c2)" and
        k2: "proceed
          (if ok2 then
             proceed (stmt (print_log c2) ok2 rs2) (main_loop ?M d)
           else (None, ok2, rs2, c2)) (\<lambda>all_success results c.
        proceed (stmt (print_log c) all_success results) (exit_loop ?X d)) = (ex, ok, rs, c')"
      from entry_loop_shape[OF s2[unfolded e1]] have
        re: "map command rs2 = take (length rs2) ?E"
            "ok2 \<Longrightarrow> length rs2 = length ?E"
        by auto
      show ?thesis
      proof (cases ok2)
        case False
        with k2 have
          "proceed (None, ok2, rs2, c2) (\<lambda>all_success results c.
             proceed (stmt (print_log c) all_success results) (exit_loop ?X d)) = (ex, ok, rs, c')"
          by simp
        then have "proceed (stmt (print_log c2) ok2 rs2) (exit_loop ?X d) = (ex, ok, rs, c')"
          by (simp add: proceed_def)
        from proceed_E[OF this] have "\<exists>rx. rs = rs2 @ rx \<and> prefix (map command rx) ?X"
        proof (elim disjE exE conjE)
          fix e assume "stmt (print_log c2) ok2 rs2 = (Some e, ok, rs, c')"
          from stmt_E[OF this] show ?thesis by simp
        next
          fix ok4 rs4 c4
          assume s4: "stmt (print_log c2) ok2 rs2 = (None, ok4, rs4, c4)"
             and k4: "exit_loop ?X d ok4 rs4 c4 = (ex, ok, rs, c')"
          from stmt_E[OF s4] have e4: "rs4 = rs2" by auto
          from exit_loop_shape[OF k4[unfolded e4]] show ?thesis
            by (metis take_is_prefix)
        qed
        then obtain rx where "rs = rs2 @ rx" "prefix (map command rx) ?X" by blast
        with re(1) have "prefix (map command rs) (take (length rs2) ?E @ ?X)" by simp
        then show ?thesis by blast
      next
        case True
        with re have E: "map command rs2 = ?E" by simp
        from True k2 have k2': "proceed (proceed (stmt (print_log c2) True rs2) (main_loop ?M d))
            (\<lambda>all_success results c.
               proceed (stmt (print_log c) all_success results) (exit_loop ?X d)) = (ex, ok, rs, c')"
          by simp
        from proceed_E[OF k2'] have "?B rs"
        proof (elim disjE exE conjE)
          fix e
          assume m: "proceed (stmt (print_log c2) True rs2) (main_loop ?M d) = (Some e, ok, rs, c')"
          from proceed_E[OF m] have "\<exists>rm. rs = rs2 @ rm \<and> prefix (map command rm) ?M"
          proof (elim disjE exE conjE)
            fix e' assume "stmt (print_log c2) True rs2 = (Some e', ok, rs, c')"
            from stmt_E[OF this] show ?thesis by simp
          next
            fix oka rsa ca
            assume sa: "stmt (print_log c2) True rs2 = (None, oka, rsa, ca)"
               and ka: "main_loop ?M d oka rsa ca = (Some e, ok, rs, c')"
            from stmt_E[OF sa] have ea: "rsa = rs2" by auto
            from main_loop_shape[OF ka[unfolded ea]] show ?thesis
              by (metis take_is_prefix)
          qed
          then obtain rm where "rs = rs2 @ rm" "prefix (map command rm) ?M" by blast
          with E show ?thesis by (auto simp: prefix_def)
        next
          fix ok3 rs3 c3
          assume m: "proceed (stmt (print_log c2) True rs2) (main_loop ?M d) = (None, ok3, rs3, c3)"
             and k3: "proceed (stmt (print_log c3) ok3 rs3) (exit_loop ?X d) = (ex, ok, rs, c')"
          from proceed_E[OF m] obtain oka rsa ca where
            sa: "stmt (print_log c2) True rs2 = (None, oka, rsa, ca)" and
            ka: "main_loop ?M d oka rsa ca = (None, ok3, rs3, c3)" by auto
          from stmt_E[OF sa] have ea: "rsa = rs2" by auto
          from main_loop_shape[OF ka[unfolded ea]] obtain rm where
            rm: "rs3 = rs2 @ rm" "map command rm = ?M" by auto
          from proceed_E[OF k3] have "\<exists>rx. rs = rs3 @ rx \<and> prefix (map command rx) ?X"
          proof (elim disjE exE conjE)
            fix e assume "stmt (print_log c3) ok3 rs3 = (Some e, ok, rs, c')"
            from stmt_E[OF this] show ?thesis by simp
          next
            fix ok4 rs4 c4
            assume s4: "stmt (print_log c3) ok3 rs3 = (None, ok4, rs4, c4)"
               and k4: "exit_loop ?X d ok4 rs4 c4 = (ex, ok, rs, c')"
            from stmt_E[OF s4] have e4: "rs4 = rs3" by auto
            from exit_loop_shape[OF k4[unfolded e4]] show ?thesis
              by (metis take_is_prefix)
          qed
          then obtain rx where "rs = rs3 @ rx" "prefix (map command rx) ?X" by blast
          with E rm show ?thesis by (auto simp: prefix_def)
        qed
        then show ?thesis by blast
      qed
    qed
  qed
qed

lemma count_list_prefix:
  "prefix xs ys \<Longrightarrow> count_list xs x \<le> count_list ys x"
  by (auto simp: prefix_def)

lemma distinct_count_list:
  "distinct xs \<Longrightarrow> count_list xs x = (if x \<in> set xs then 1 else 0)"
  by (induction xs) auto

lemma profile_distinct:
  "distinct (get_config_mode_commands et)"
  "set (get_config_mode_commands et) \<inter> set (get_exit_commands et) = {}"
  by (cases et; simp)+

lemma entry_command_at_most_once:
  assumes "try_block c commands et d = (ex, ok, rs, c')"
      and "x \<in> set (get_config_mode_commands et)"
  shows "count_list (map command rs) x \<le> 1"
proof -
  let ?E = "get_config_mode_commands et"
  let ?M = "main_commands commands ?E"
  let ?X = "get_exit_commands et"
  have xM: "count_list ?M x = 0" using assms(2) by (simp add: main_commands_def count_list_0_iff)
  have xX: "count_list ?X x = 0" using assms(2) profile_distinct(2)[of et] by (auto simp: count_list_0_iff)
  have xE: "count_list ?E x = 1" using assms(2) profile_distinct(1)[of et]
    by (simp add: distinct_count_list)
  have xT: "count_list (take n ?E) x \<le> 1" for n
    using profile_distinct(1)[of et] distinct_take[of ?E n]
    by (simp add: distinct_count_list)
  from try_block_attempted[OF assms(1)] show ?thesis
  proof
    assume "\<exists>n. prefix (map command rs) (take n ?E @ ?X)"
    then obtain n where "prefix (map command rs) (take n ?E @ ?X)" by blast
    from count_list_prefix[OF this, of x] xT[of n] xX show ?thesis by simp
  next
    assume "prefix (map command rs) (?E @ ?M @ ?X)"
    from count_list_prefix[OF this, of x] xE xM xX show ?thesis by simp
  qed
qed

lemma execute_commands_try_block:
  assumes "fst (execute_commands c commands et d) = Returned rep"
  shows "\<exists>ex ok c'. try_block c commands et d = (ex, ok, results rep, c')"
  using assms
  by (auto simp: execute_commands_def and_then_def
      split: prod.splits option.splits exn.splits outcome.splits)

lemma execute_commands_normal:
  assumes "fst (execute_commands c commands et d) = Returned rep" and "rep_error rep = None"
  shows "\<exists>c'. try_block c commands et d = (None, rep_success rep, results rep, c')"
    and "successful_commands rep = length (filter success (results rep))"
    and "total_commands rep = length commands"
  using assms
  by (auto simp: execute_commands_def and_then_def
      split: prod.splits option.splits exn.splits outcome.splits)

text \<open>
  The two shapes of a report without a top-level error: every entry command succeeded
  and all main commands were run, or the entry phase stopped at its first failure.
\<close>

lemma batch_cases:
  assumes "fst (execute_commands c commands et d) = Returned rep" and "rep_error rep = None"
  obtains
    (entered) "map command (results rep) =
                 get_config_mode_commands et
                 @ main_commands commands (get_config_mode_commands et)
                 @ get_exit_commands et"
              "list_all success (take (length (get_config_mode_commands et)) (results rep))"
              "rep_success rep =
                 list_all success (take (length (results rep) - length (get_exit_commands et))
                   (results rep))"
  | (refused) k where "k < length (get_config_mode_commands et)"
              "map command (results rep) =
                 take (Suc k) (get_config_mode_commands et) @ get_exit_commands et"
              "list_all success (take k (results rep))"
              "\<not> success (results rep ! k)"
              "\<not> rep_success rep"
proof -
  let ?E = "get_config_mode_commands et"
  let ?M = "main_commands commands ?E"
  let ?X = "get_exit_commands et"
  let ?rs = "results rep"
  from execute_commands_normal(1)[OF assms] obtain c' where
    "try_block c commands et d = (None, rep_success rep, ?rs, c')" by blast
  from try_block_normal[OF this] obtain re rm rx where
    sh: "?rs = re @ rm @ rx" "map command rx = ?X" "map command re = take (length re) ?E"
        "list_all success (butlast re)"
        "if rep_success rep \<or> list_all success re
         then length re = length ?E \<and> list_all success re \<and> map command rm = ?M
              \<and> rep_success rep = list_all success rm
         else re \<noteq> [] \<and> \<not> success (last re) \<and> rm = [] \<and> \<not> rep_success rep"
    by blast
  have lx: "length rx = length ?X"
  proof -
    have "length (map command rx) = length ?X" by (simp only: sh(2))
    then show ?thesis by simp
  qed
  show thesis
  proof (cases "rep_success rep \<or> list_all success re")
    case True
    note sh(5)[unfolded if_P[OF True]]
    then have a: "length re = length ?E" "list_all success re" "map command rm = ?M"
      "rep_success rep = list_all success rm" by blast+
    have mre: "map command re = ?E" using sh(3) a(1) by simp
    have 1: "map command ?rs = ?E @ ?M @ ?X" using sh(1) sh(2) mre a(3) by simp
    have 2: "list_all success (take (length ?E) ?rs)" using sh(1) a(1) a(2) by simp
    have "take (length ?rs - length ?X) ?rs = re @ rm" using sh(1) lx by simp
    then have 3: "rep_success rep = list_all success (take (length ?rs - length ?X) ?rs)"
      using a(2) a(4) by simp
    from 1 2 3 show thesis by (rule entered)
  next
    case False
    note sh(5)[unfolded if_not_P[OF False]]
    then have b: "re \<noteq> []" "\<not> success (last re)" "rm = []" "\<not> rep_success rep"
      by blast+
    define k where "k = length re - 1"
    have lre: "length re = Suc k" using b(1) k_def by (cases re) auto
    have "length (map command re) = length (take (length re) ?E)" by (simp only: sh(3)[symmetric])
    then have le: "length re \<le> length ?E" by simp
    have 1: "k < length ?E" using lre le by simp
    have 2: "map command ?rs = take (Suc k) ?E @ ?X" using sh(1) sh(2) sh(3) b(3) lre by simp
    have "take k ?rs = butlast re" using sh(1) lre by (simp add: butlast_conv_take)
    then have 3: "list_all success (take k ?rs)" using sh(4) by simp
    have "?rs ! k = last re" using sh(1) lre b(1) by (simp add: nth_append last_conv_nth)
    then have 4: "\<not> success (?rs ! k)" using b(2) by simp
    from 1 2 3 4 b(4) show thesis by (rule refused)
  qed
qed

section \<open>The properties\<close>

lemma refused_run:
  "fst (execute_commands (session refusing_device []) [''hostname R1''] CISCO_IOS 1000)
     = Returned refused_report"
  by (simp add: run_defs refused_report_def)

lemma cisco_run:
  "fst (execute_commands (session cisco_device [])
          [''hostname R1'', ''frobnicate'', ''enable'', ''no ip domain-lookup''] CISCO_IOS 1000)
     = Returned cisco_report"
  by (simp add: run_defs cisco_report_def)

lemma mikrotik_run:
  "fst (execute_commands (session mikrotik_device [])
          [''/system identity set name=r1'', ''/ip address print''] MIKROTIK 1000)
     = Returned mikrotik_report"
  by (simp add: run_defs mikrotik_report_def)

text \<open>
  C4. Take a batch that returns its report without a top-level error, and let the
  entry command at position \<open>k\<close> be the first command that fails (\<open>k = 0\<close>: the first
  entry command fails). Then the commands recorded in \<^verbatim>\<open>results\<close> are the entry
  commands up to and including that one, followed by all exit commands: no further
  entry command and no main command was attempted, every exit command was, and the
  number of results is the number of entry commands attempted plus the number of exit
  commands. The batch is reported as failed.
\<close>

theorem entry_failure_skips_main_runs_exit:
  assumes "fst (execute_commands c commands et delay) = Returned rep"
      and "rep_error rep = None"
      and "k < length (get_config_mode_commands et)"
      and "list_all success (take k (results rep))"
      and "\<not> success (results rep ! k)"
  shows "map command (results rep) =
           take (Suc k) (get_config_mode_commands et) @ get_exit_commands et
         \<and> length (results rep) = Suc k + length (get_exit_commands et)
         \<and> \<not> rep_success rep"
  using assms(1,2)
proof (cases rule: batch_cases)
  case entered
  have "k < length (results rep)"
    using entered(1) assms(3) by (metis length_map length_append trans_less_add1)
  with entered(2) assms(3) have "success (results rep ! k)"
    by (simp add: list_all_length)
  with assms(5) show ?thesis by simp
next
  case (refused j)
  have lj: "j < length (results rep)"
  proof -
    have "length (map command (results rep)) =
            length (take (Suc j) (get_config_mode_commands et) @ get_exit_commands et)"
      by (simp only: refused(2))
    with refused(1) show ?thesis by simp
  qed
  have "j = k"
  proof (rule ccontr)
    assume "j \<noteq> k"
    then consider "j < k" | "k < j" by linarith
    then show False
    proof cases
      case 1
      with assms(4) lj have "success (results rep ! j)" by (simp add: list_all_length)
      with refused(4) show False by simp
    next
      case 2
      with refused(3) lj have "success (results rep ! k)" by (simp add: list_all_length)
      with assms(5) show False by simp
    qed
  qed
  have "length (map command (results rep)) =
          length (take (Suc k) (get_config_mode_commands et) @ get_exit_commands et)"
    using refused(2) \<open>j = k\<close> by simp
  then have "length (results rep) = Suc k + length (get_exit_commands et)"
    using assms(3) by simp
  with refused(2,5) \<open>j = k\<close> show ?thesis by simp
qed

theorem entry_failure_witness:
  "fst (execute_commands (session refusing_device []) [''hostname R1''] CISCO_IOS 1000)
     = Returned refused_report
   \<and> rep_error refused_report = None
   \<and> (0::nat) < length (get_config_mode_commands CISCO_IOS)
   \<and> \<not> success (results refused_report ! 0)
   \<and> map command (results refused_report) = [''enable'', ''end'', ''exit'']
   \<and> length (results refused_report) = 3
   \<and> \<not> rep_success refused_report"
proof -
  have h2: "rep_error refused_report = None" by (simp add: refused_report_def)
  have h3: "0 < length (get_config_mode_commands CISCO_IOS)" by simp
  have h4: "list_all success (take 0 (results refused_report))" by simp
  have h5: "\<not> success (results refused_report ! 0)" by (simp add: refused_report_def)
  from entry_failure_skips_main_runs_exit[OF refused_run h2 h3 h4 h5]
  have "map command (results refused_report) = [''enable'', ''end'', ''exit'']"
       "length (results refused_report) = 3" "\<not> rep_success refused_report"
    by simp_all
  with refused_run h2 h3 h5 show ?thesis by simp
qed

text \<open>
  C5. For every batch that returns its report without a top-level error:
  \<^verbatim>\<open>successful_commands\<close> is the number of recorded results that succeeded; the
  overall flag is true exactly when every result before the exit phase (the attempted
  entry and main commands) succeeded, so the outcomes of the exit commands never change
  it and a failed main command makes it false; and when every entry command succeeded,
  the recorded commands are all entry commands, then all main commands, then all exit
  commands, whichever of the main commands failed.
\<close>

theorem main_phase_continues_on_error:
  assumes "fst (execute_commands c commands et delay) = Returned rep"
      and "rep_error rep = None"
  shows "successful_commands rep = length (filter success (results rep))
         \<and> rep_success rep =
             list_all success
               (take (length (results rep) - length (get_exit_commands et)) (results rep))
         \<and> (list_all success (take (length (get_config_mode_commands et)) (results rep)) \<longrightarrow>
              map command (results rep) =
                get_config_mode_commands et
                @ main_commands commands (get_config_mode_commands et)
                @ get_exit_commands et)"
proof -
  have 1: "successful_commands rep = length (filter success (results rep))"
    using execute_commands_normal(2)[OF assms] .
  from assms show ?thesis
  proof (cases rule: batch_cases)
    case entered
    with 1 show ?thesis by simp
  next
    case (refused k)
    let ?E = "get_config_mode_commands et"
    let ?X = "get_exit_commands et"
    have len: "length (results rep) = Suc k + length ?X"
    proof -
      have "length (map command (results rep)) = length (take (Suc k) ?E @ ?X)"
        by (simp only: refused(2))
      with refused(1) show ?thesis by simp
    qed
    have a: "\<not> list_all success (take (length (results rep) - length ?X) (results rep))"
      using refused(4) len by (auto simp: list_all_length)
    have b: "\<not> list_all success (take (length ?E) (results rep))"
      using refused(1,4) len by (auto simp: list_all_length intro: exI[of _ k])
    from 1 a b refused(5) show ?thesis by simp
  qed
qed

theorem main_phase_witness:
  "fst (execute_commands (session cisco_device [])
          [''hostname R1'', ''frobnicate'', ''enable'', ''no ip domain-lookup''] CISCO_IOS 1000)
     = Returned cisco_report
   \<and> rep_error cisco_report = None
   \<and> list_all success (take (length (get_config_mode_commands CISCO_IOS)) (results cisco_report))
   \<and> \<not> success (results cisco_report ! 3)
   \<and> map command (results cisco_report) =
        [''enable'', ''configure terminal'', ''hostname R1'', ''frobnicate'',
         ''no ip domain-lookup'', ''end'', ''exit'']
   \<and> successful_commands cisco_report = 6
   \<and> \<not> rep_success cisco_report"
proof -
  have h2: "rep_error cisco_report = None" by (simp add: cisco_report_def)
  have h3: "list_all success (take (length (get_config_mode_commands CISCO_IOS)) (results cisco_report))"
    by (simp add: cisco_report_def)
  have h4: "\<not> success (results cisco_report ! 3)" by (simp add: cisco_report_def)
  from main_phase_continues_on_error[OF cisco_run h2] h3
  have "map command (results cisco_report) =
        [''enable'', ''configure terminal'', ''hostname R1'', ''frobnicate'',
         ''no ip domain-lookup'', ''end'', ''exit'']"
    by (simp add: main_commands_def)
  moreover have "successful_commands cisco_report = 6" "\<not> rep_success cisco_report"
    by (simp_all add: cisco_report_def)
  ultimately show ?thesis using cisco_run h2 h3 h4 by simp
qed

text \<open>
  C7. A command of the profile's entry sequence is not among the main commands, whatever
  the caller's list holds, and it is recorded at most once in the results of any report
  the batch returns; it is recorded exactly once when the report has no top-level error
  and every entry command succeeded.
\<close>

theorem entry_commands_run_once:
  assumes "fst (execute_commands c commands et delay) = Returned rep"
      and "x \<in> set (get_config_mode_commands et)"
  shows "x \<notin> set (main_commands commands (get_config_mode_commands et))
         \<and> count_list (map command (results rep)) x \<le> 1
         \<and> (rep_error rep = None
              \<and> list_all success (take (length (get_config_mode_commands et)) (results rep)) \<longrightarrow>
            count_list (map command (results rep)) x = 1)"
proof -
  let ?E = "get_config_mode_commands et"
  let ?M = "main_commands commands ?E"
  let ?X = "get_exit_commands et"
  have 1: "x \<notin> set ?M" using assms(2) by (simp add: main_commands_def)
  from execute_commands_try_block[OF assms(1)] obtain ex ok c' where
    "try_block c commands et delay = (ex, ok, results rep, c')" by blast
  from entry_command_at_most_once[OF this assms(2)]
  have 2: "count_list (map command (results rep)) x \<le> 1" .
  have 3: "count_list (map command (results rep)) x = 1"
    if n: "rep_error rep = None" and e: "list_all success (take (length ?E) (results rep))"
    using assms(1) n
  proof (cases rule: batch_cases)
    case entered
    have "count_list ?E x = 1" using assms(2) profile_distinct(1)[of et]
      by (simp add: distinct_count_list)
    moreover have "count_list ?X x = 0" using assms(2) profile_distinct(2)[of et]
      by (auto simp: count_list_0_iff)
    moreover have "count_list ?M x = 0" using 1 by simp
    ultimately show ?thesis using entered(1) by simp
  next
    case (refused k)
    have "length (map command (results rep)) = length (take (Suc k) ?E @ ?X)"
      by (simp only: refused(2))
    with refused(1) have "k < length (results rep)" by simp
    with e refused(1) have "success (results rep ! k)" by (simp add: list_all_length)
    with refused(4) show ?thesis by simp
  qed
  from 1 2 3 show ?thesis by blast
qed

theorem entry_commands_witness:
  "fst (execute_commands (session cisco_device [])
          [''hostname R1'', ''frobnicate'', ''enable'', ''no ip domain-lookup''] CISCO_IOS 1000)
     = Returned cisco_report
   \<and> ''enable'' \<in> set (get_config_mode_commands CISCO_IOS)
   \<and> ''enable'' \<in> set [''hostname R1'', ''frobnicate'', ''enable'', ''no ip domain-lookup'']
   \<and> rep_error cisco_report = None
   \<and> list_all success (take (length (get_config_mode_commands CISCO_IOS)) (results cisco_report))
   \<and> count_list (map command (results cisco_report)) ''enable'' = 1
   \<and> ''enable'' \<notin> set (main_commands
        [''hostname R1'', ''frobnicate'', ''enable'', ''no ip domain-lookup'']
        (get_config_mode_commands CISCO_IOS))"
proof -
  have h1: "''enable'' \<in> set (get_config_mode_commands CISCO_IOS)" by simp
  have h2: "rep_error cisco_report = None" by (simp add: cisco_report_def)
  have h3: "list_all success (take (length (get_config_mode_commands CISCO_IOS)) (results cisco_report))"
    by (simp add: cisco_report_def)
  from entry_commands_run_once[OF cisco_run h1] h2 h3
  have "count_list (map command (results cisco_report)) ''enable'' = 1"
       "''enable'' \<notin> set (main_commands
        [''hostname R1'', ''frobnicate'', ''enable'', ''no ip domain-lookup'']
        (get_config_mode_commands CISCO_IOS))"
    by blast+
  with cisco_run h1 h2 h3 show ?thesis by simp
qed

text \<open>
  C10. The entry and exit sequences of MikroTik are empty, so the main commands are the
  caller's commands, and a batch that returns its report without a top-level error has
  recorded exactly the caller's commands, one result for each, in order.
\<close>

theorem mikrotik_runs_caller_commands_only:
  assumes "fst (execute_commands c commands MIKROTIK delay) = Returned rep"
      and "rep_error rep = None"
  shows "get_config_mode_commands MIKROTIK = [] \<and> get_exit_commands MIKROTIK = []
         \<and> main_commands commands (get_config_mode_commands MIKROTIK) = commands
         \<and> map command (results rep) = commands
         \<and> length (results rep) = length commands"
  using assms
proof (cases rule: batch_cases)
  case entered
  then have m: "map command (results rep) = commands" by (simp add: main_commands_def)
  from arg_cong[OF m, where f = length] have "length (results rep) = length commands" by simp
  with m show ?thesis by (simp add: main_commands_def)
next
  case (refused k)
  then show ?thesis by simp
qed

theorem mikrotik_witness:
  "fst (execute_commands (session mikrotik_device [])
          [''/system identity set name=r1'', ''/ip address print''] MIKROTIK 1000)
     = Returned mikrotik_report
   \<and> rep_error mikrotik_report = None
   \<and> map command (results mikrotik_report) =
        [''/system identity set name=r1'', ''/ip address print'']
   \<and> length (results mikrotik_report) = 2"
proof -
  have h2: "rep_error mikrotik_report = None" by (simp add: mikrotik_report_def)
  from mikrotik_runs_caller_commands_only[OF mikrotik_run h2] mikrotik_run h2
  show ?thesis by simp
qed

section \<open>Teardown\<close>

text \<open>Nothing a batch does closes a handle or resets one.\<close>

lemma same_transport_refl: "same_transport c c"
  by (simp add: same_transport_def)

lemma same_transport_trans:
  "same_transport a b \<Longrightarrow> same_transport b c \<Longrightarrow> same_transport a c"
  by (simp add: same_transport_def)

lemma effect_st: "same_transport c0 c \<Longrightarrow> same_transport c0 (snd (effect c))"
  by (auto simp: effect_def same_transport_def split: list.splits option.splits)

lemma print_log_st: "same_transport c0 c \<Longrightarrow> same_transport c0 (snd (print_log c))"
  by (simp add: print_log_def effect_st)

lemma sleep_st: "same_transport c0 c \<Longrightarrow> same_transport c0 (snd (sleep ms c))"
  by (simp add: sleep_def effect_st)

lemma and_then_st:
  assumes "same_transport c0 (snd m)"
      and "\<And>v c1. same_transport c0 c1 \<Longrightarrow> same_transport c0 (snd (f v c1))"
  shows "same_transport c0 (snd (and_then m f))"
proof (cases m)
  case (Pair r c1)
  with assms show ?thesis by (cases r) (simp_all add: and_then_def)
qed

lemma stdin_write_st:
  "same_transport c0 c \<Longrightarrow> same_transport c0 (snd (stdin_write data c))"
  unfolding stdin_write_def
  apply (rule and_then_st)
   apply (simp add: effect_st)
  apply (simp add: same_transport_def)
  done

lemma read_loop_st:
  "same_transport c0 c \<Longrightarrow> same_transport c0 (snd (snd (read_loop tmo elapsed out c)))"
proof (induction tmo elapsed out c rule: read_loop.induct)
  case (1 tmo elapsed out c)
  have upd: "same_transport c0 (c\<lparr>incoming := rest\<rparr>)" for rest
    using "1.prems" by (simp add: same_transport_def)
  show ?case
  proof (cases "elapsed < tmo")
    case False
    then show ?thesis using "1.prems" by (simp add: read_loop.simps)
  next
    case True
    show ?thesis
    proof (cases "incoming c")
      case Nil
      with True "1.IH"(1) "1.prems" show ?thesis
        by (subst read_loop.simps) simp
    next
      case (Cons ev rest)
      show ?thesis
      proof (cases ev)
        case (Data chunk ms)
        with True Cons "1.IH"(2,3) upd show ?thesis
          by (subst read_loop.simps) simp
      next
        case Silence
        with True Cons "1.IH"(4) upd show ?thesis
          by (subst read_loop.simps) simp
      next
        case (ReadError msg)
        with True Cons upd show ?thesis
          by (subst read_loop.simps) simp
      next
        case ReadAbort
        with True Cons upd show ?thesis
          by (subst read_loop.simps) simp
      qed
    qed
  qed
qed

lemma read_until_timeout_st:
  assumes "same_transport c0 c"
  shows "same_transport c0 (snd (read_until_timeout tmo c))"
proof (cases "read_loop tmo 0 [] c")
  case (fields ex out c1)
  have c1: "same_transport c0 c1" using read_loop_st[OF assms, of tmo 0 "[]"] fields by simp
  have p: "same_transport c0 (snd (and_then (print_log c1) (\<lambda>_ c. (Returned out, c))))"
    by (rule and_then_st) (simp_all add: print_log_st c1)
  show ?thesis
  proof (cases ex)
    case None
    with fields c1 assms show ?thesis by (simp add: read_until_timeout_def)
  next
    case (Some e)
    with fields c1 p assms show ?thesis by (cases e) (simp_all add: read_until_timeout_def)
  qed
qed

lemma send_command_st:
  "same_transport c0 c \<Longrightarrow> same_transport c0 (snd (send_command c cmd tmo))"
  unfolding send_command_def
  by (auto intro!: and_then_st print_log_st sleep_st stdin_write_st read_until_timeout_st)

lemma execute_command_st:
  assumes "same_transport c0 c"
  shows "same_transport c0 (snd (execute_command c cmd tmo))"
proof (cases "send_command c cmd tmo")
  case (Pair r c1)
  with send_command_st[OF assms, of cmd tmo] have "same_transport c0 c1" by simp
  with Pair show ?thesis
    by (auto simp: execute_command_def Let_def split: outcome.splits exn.splits)
qed

lemma stmt_st:
  "same_transport c0 (snd m) \<Longrightarrow> same_transport c0 (snd (snd (snd (stmt m a rs))))"
  by (cases m) (auto simp: stmt_def split: outcome.splits)

lemma proceed_st:
  assumes "same_transport c0 (snd (snd (snd r)))"
      and "\<And>ok rs c1. same_transport c0 c1 \<Longrightarrow> same_transport c0 (snd (snd (snd (k ok rs c1))))"
  shows "same_transport c0 (snd (snd (snd (proceed r k))))"
  using assms by (auto simp: proceed_def split: prod.splits option.splits)

lemma entry_loop_st:
  "same_transport c0 c \<Longrightarrow> same_transport c0 (snd (snd (snd (entry_loop cmds d ok rs c))))"
proof (induction cmds arbitrary: ok rs c)
  case Nil
  then show ?case by simp
next
  case (Cons cmd cmds)
  show ?case
  proof (cases "execute_command c cmd 10000")
    case (Pair r c1)
    with execute_command_st[OF Cons.prems, of cmd 10000] have c1: "same_transport c0 c1" by simp
    show ?thesis
    proof (cases r)
      case (Raised e)
      with Pair c1 show ?thesis by simp
    next
      case (Returned res)
      have "same_transport c0 (snd (snd (snd
          (proceed (stmt (print_log c1) ok (rs @ [res]))
             (\<lambda>all_success results c. (None, False, results, c))))))"
        by (rule proceed_st) (simp_all add: stmt_st print_log_st c1)
      moreover have "same_transport c0 (snd (snd (snd
          (proceed (stmt (sleep d c1) ok (rs @ [res])) (entry_loop cmds d)))))"
        by (rule proceed_st) (simp_all add: stmt_st sleep_st c1 Cons.IH)
      ultimately show ?thesis using Pair Returned by simp
    qed
  qed
qed

lemma main_loop_st:
  "same_transport c0 c \<Longrightarrow> same_transport c0 (snd (snd (snd (main_loop cmds d ok rs c))))"
proof (induction cmds arbitrary: ok rs c)
  case Nil
  then show ?case by simp
next
  case (Cons cmd cmds)
  show ?case
  proof (cases "execute_command c cmd 10000")
    case (Pair r c1)
    with execute_command_st[OF Cons.prems, of cmd 10000] have c1: "same_transport c0 c1" by simp
    show ?thesis
    proof (cases r)
      case (Raised e)
      with Pair c1 show ?thesis by simp
    next
      case (Returned res)
      have "same_transport c0 (snd (snd (snd
          (proceed (stmt (sleep d c1) (ok \<and> success res) (rs @ [res])) (main_loop cmds d)))))"
        by (rule proceed_st) (simp_all add: stmt_st sleep_st c1 Cons.IH)
      then show ?thesis using Pair Returned by simp
    qed
  qed
qed

lemma exit_loop_st:
  "same_transport c0 c \<Longrightarrow> same_transport c0 (snd (snd (snd (exit_loop cmds d ok rs c))))"
proof (induction cmds arbitrary: ok rs c)
  case Nil
  then show ?case by simp
next
  case (Cons cmd cmds)
  show ?case
  proof (cases "execute_command c cmd 10000")
    case (Pair r c1)
    with execute_command_st[OF Cons.prems, of cmd 10000] have c1: "same_transport c0 c1" by simp
    show ?thesis
    proof (cases r)
      case (Raised e)
      with Pair c1 show ?thesis by simp
    next
      case (Returned res)
      have "same_transport c0 (snd (snd (snd
          (proceed (stmt (sleep d c1) ok (rs @ [res])) (exit_loop cmds d)))))"
        by (rule proceed_st) (simp_all add: stmt_st sleep_st c1 Cons.IH)
      then show ?thesis using Pair Returned by simp
    qed
  qed
qed

lemma try_block_st:
  "same_transport c0 c \<Longrightarrow> same_transport c0 (snd (snd (snd (try_block c commands et d))))"
  unfolding try_block_def Let_def
  by (intro proceed_st stmt_st print_log_st entry_loop_st)
     (auto intro!: proceed_st stmt_st print_log_st main_loop_st exit_loop_st)

lemma execute_commands_st:
  assumes "same_transport c0 c"
  shows "same_transport c0 (snd (execute_commands c commands et d))"
proof (cases "try_block c commands et d")
  case (fields ex ok rs c1)
  with try_block_st[OF assms, of commands et d] have c1: "same_transport c0 c1" by simp
  have p: "same_transport c0 (snd (and_then (print_log c1) (\<lambda>_ c. (Returned v, c))))" for v :: ExecutionReport
    by (rule and_then_st) (simp_all add: print_log_st c1)
  show ?thesis
  proof (cases ex)
    case None
    with fields c1 show ?thesis by (simp add: execute_commands_def)
  next
    case (Some e)
    with fields c1 p show ?thesis by (cases e) (simp_all add: execute_commands_def)
  qed
qed

lemma disconnect_idempotent: "disconnect (disconnect c) = disconnect c"
  by (simp add: disconnect_def Let_def)

lemma disconnect_closes:
  assumes "stdin c" and "connection c"
  shows "filter is_close (trace (disconnect c)) =
           filter is_close (trace c) @ [StdinClose, ConnClose, WaitClosed]"
  using assms by (simp add: disconnect_def Let_def)

lemma with_session_closes:
  assumes "stdin c" and "connection c"
  shows "filter is_close (trace (snd (with_session c commands et))) =
           filter is_close (trace c) @ [StdinClose, ConnClose, WaitClosed]"
proof -
  let ?m = "and_then (execute_commands c commands et 1000)
             (\<lambda>execution_result c. (Returned (reply_of execution_result), c))"
  have "same_transport c (snd ?m)"
    by (rule and_then_st) (simp_all add: execute_commands_st same_transport_refl)
  then have "stdin (snd ?m)" "connection (snd ?m)"
    "filter is_close (trace (snd ?m)) = filter is_close (trace c)"
    using assms by (simp_all add: same_transport_def)
  with disconnect_closes[of "snd ?m"]
  have "filter is_close (trace (disconnect (snd ?m))) =
          filter is_close (trace c) @ [StdinClose, ConnClose, WaitClosed]" by simp
  then show ?thesis by (cases ?m) (simp add: with_session_def)
qed

lemma and_then_Returned:
  assumes "and_then m f = (Returned v, c')"
  obtains u c1 where "m = (Returned u, c1)" and "f u c1 = (Returned v, c')"
  using assms by (cases m) (auto simp: and_then_def split: outcome.splits)

lemma connect_established:
  assumes "connect c = (Returned True, c1)"
  shows "stdin c1 \<and> connection c1 \<and> filter is_close (trace c1) = filter is_close (trace c)"
proof -
  let ?body = "and_then (effect c) (\<lambda>_ c.
           and_then (effect (c\<lparr>connection := True\<rparr>)) (\<lambda>_ c.
           and_then (sleep 2000 (c\<lparr>stdin := True, stdout := True, stderr := True\<rparr>)) (\<lambda>_ c.
           and_then (read_until_timeout 3000 c) (\<lambda>initial_output c.
           and_then (print_log c) (\<lambda>_ c.
           (Returned True, c))))))"
  have never: "fst (and_then m (\<lambda>_ c. (Returned False, c))) \<noteq> Returned True" for m :: "unit io"
    by (cases m) (auto simp: and_then_def split: outcome.splits)
  from assms have b: "?body = (Returned True, c1)"
    using never[of "print_log c'" for c']
    by (auto simp: connect_def split: if_splits prod.splits outcome.splits exn.splits)
       (metis fst_conv)+
  from and_then_Returned[OF b] obtain u1 ca where
    1: "effect c = (Returned u1, ca)" and
    b1: "and_then (effect (ca\<lparr>connection := True\<rparr>)) (\<lambda>_ c.
           and_then (sleep 2000 (c\<lparr>stdin := True, stdout := True, stderr := True\<rparr>)) (\<lambda>_ c.
           and_then (read_until_timeout 3000 c) (\<lambda>initial_output c.
           and_then (print_log c) (\<lambda>_ c.
           (Returned True, c))))) = (Returned True, c1)" by blast
  from and_then_Returned[OF b1] obtain u2 cb where
    2: "effect (ca\<lparr>connection := True\<rparr>) = (Returned u2, cb)" and
    b2: "and_then (sleep 2000 (cb\<lparr>stdin := True, stdout := True, stderr := True\<rparr>)) (\<lambda>_ c.
           and_then (read_until_timeout 3000 c) (\<lambda>initial_output c.
           and_then (print_log c) (\<lambda>_ c.
           (Returned True, c)))) = (Returned True, c1)" by blast
  from and_then_Returned[OF b2] obtain u3 cc where
    3: "sleep 2000 (cb\<lparr>stdin := True, stdout := True, stderr := True\<rparr>) = (Returned u3, cc)" and
    b3: "and_then (read_until_timeout 3000 cc) (\<lambda>initial_output c.
           and_then (print_log c) (\<lambda>_ c.
           (Returned True, c))) = (Returned True, c1)" by blast
  from and_then_Returned[OF b3] obtain u4 cd where
    4: "read_until_timeout 3000 cc = (Returned u4, cd)" and
    b4: "and_then (print_log cd) (\<lambda>_ c. (Returned True, c)) = (Returned True, c1)" by blast
  from and_then_Returned[OF b4] obtain u5 ce where
    5: "print_log cd = (Returned u5, ce)" and "(Returned True, ce) = (Returned True, c1)" by blast
  then have 6: "ce = c1" by simp
  have s1: "same_transport c ca"
    using effect_st[OF same_transport_refl, of c] 1 by simp
  have s2: "same_transport (ca\<lparr>connection := True\<rparr>) cb"
    using effect_st[OF same_transport_refl, of "ca\<lparr>connection := True\<rparr>"] 2 by simp
  have s3: "same_transport (cb\<lparr>stdin := True, stdout := True, stderr := True\<rparr>) cc"
    using sleep_st[OF same_transport_refl, of "cb\<lparr>stdin := True, stdout := True, stderr := True\<rparr>" 2000]
      3 by simp
  have s4: "same_transport cc cd"
    using read_until_timeout_st[OF same_transport_refl, of cc 3000] 4 by simp
  have s5: "same_transport cd c1"
    using print_log_st[OF same_transport_refl, of cd] 5 6 by simp
  from s1 s2 s3 s4 s5 show ?thesis by (simp add: same_transport_def)
qed

lemma convert_device_type_st:
  assumes "same_transport c0 c"
  shows "same_transport c0 (snd (convert_device_type s c))"
proof (cases "EquipmentType_of (lower s)")
  case None
  have "same_transport c0 (snd (and_then (print_log c) (\<lambda>_ c. (Returned CISCO_IOS, c))))"
    by (rule and_then_st) (simp_all add: print_log_st assms)
  with None show ?thesis by (simp add: convert_device_type_def)
next
  case (Some t)
  with assms show ?thesis by (simp add: convert_device_type_def)
qed

text \<open>
  C6. Take an invocation of \<^verbatim>\<open>execute_commands_ssh\<close> that gets past the conversion of
  the device type and in which \<^verbatim>\<open>connect\<close> returns \<open>True\<close>. Whatever it then returns
  or raises, the trace of the transport at the end holds each closing event exactly
  once: the write side is closed, the connection is closed, and its closing is waited
  for. A second \<^verbatim>\<open>disconnect\<close> changes nothing.
\<close>

theorem teardown_exactly_once:
  assumes "convert_device_type device_type_str (new_client ip user pw device env_faults)
             = (Returned et, c0)"
      and "connect c0 = (Returned True, c1)"
  shows "filter is_close
           (trace (snd (execute_commands_ssh device env_faults commands ip user pw device_type_str)))
           = [StdinClose, ConnClose, WaitClosed]
         \<and> disconnect (disconnect c) = disconnect c"
proof -
  let ?n = "new_client ip user pw device env_faults"
  have "same_transport ?n c0"
    using convert_device_type_st[OF same_transport_refl, of ?n device_type_str] assms(1) by simp
  then have t0: "filter is_close (trace c0) = []"
    by (simp add: same_transport_def new_client_def)
  from connect_established[OF assms(2)] t0 have
    c1: "stdin c1" "connection c1" "filter is_close (trace c1) = []" by simp_all
  have "execute_commands_ssh device env_faults commands ip user pw device_type_str
          = with_session c1 commands et"
    using assms by (simp add: execute_commands_ssh_def and_then_def)
  with with_session_closes[OF c1(1,2), of commands et] c1(3)
  show ?thesis by (simp add: disconnect_idempotent)
qed

lemma cancelled_connect:
  "fst (connect (new_client ''192.0.2.1'' ''admin'' ''secret'' welcome_device cancelled))
     = Returned True"
  by (simp add: run_defs ssh_defs)

lemma cancelled_run:
  "fst (execute_commands_ssh welcome_device cancelled [''hostname R1'']
          ''192.0.2.1'' ''admin'' ''secret'' ''cisco_ios'') = Raised BaseException"
  by (simp add: run_defs ssh_defs)

theorem teardown_witness:
  "fst (connect (new_client ''192.0.2.1'' ''admin'' ''secret'' welcome_device cancelled))
     = Returned True
   \<and> fst (execute_commands_ssh welcome_device cancelled [''hostname R1'']
          ''192.0.2.1'' ''admin'' ''secret'' ''cisco_ios'') = Raised BaseException
   \<and> filter is_close
        (trace (snd (execute_commands_ssh welcome_device cancelled [''hostname R1'']
          ''192.0.2.1'' ''admin'' ''secret'' ''cisco_ios'')))
        = [StdinClose, ConnClose, WaitClosed]"
proof -
  let ?n = "new_client ''192.0.2.1'' ''admin'' ''secret'' welcome_device cancelled"
  have h1: "convert_device_type ''cisco_ios'' ?n = (Returned CISCO_IOS, ?n)"
    by (simp add: convert_device_type_def EquipmentType_of_def lower_char_def)
  have h2: "connect ?n = (Returned True, snd (connect ?n))"
    using cancelled_connect by (metis prod.collapse)
  from teardown_exactly_once[OF h1 h2] cancelled_connect cancelled_run
  show ?thesis by simp
qed

section \<open>Classification of a command's output\<close>

text \<open>Lower-casing, computed on three texts.\<close>

lemma lower_examples:
  "lower ''% Invalid Input'' = ''% invalid input''"
  "lower [CHR 0xC4, CHR 0xB0, CHR ''N''] = [CHR ''i'', CHR 0xCC, CHR 0x87, CHR ''n'']"
  "lower (''MI'' @ [CHR 0xE2, CHR 0x84, CHR 0xAA] @ ''ROTIK'') = ''mikrotik''"
  by (simp_all add: lower_char_def)

lemma contains_sublist: "contains s sub = sublist sub s"
  by (induction s) (auto simp: sublist_Cons_right)

text \<open>
  C3. Whenever \<^verbatim>\<open>send_command\<close> returns the captured output of a command,
  \<^verbatim>\<open>execute_command\<close> returns a result with that command and that output which is
  successful if and only if the lower-cased output contains none of \<^verbatim>\<open>error\<close>,
  \<^verbatim>\<open>invalid\<close>, \<^verbatim>\<open>failed\<close>, \<^verbatim>\<open>incorrect\<close>, \<^verbatim>\<open>%\<close> as a substring; a failed
  one carries the rejection reason. The two outputs the specification names follow.
\<close>

theorem classification_by_failure_keywords:
  assumes "send_command c cmd tmo = (Returned out, c')"
  shows "\<exists>r. execute_command c cmd tmo = (Returned r, c') \<and> command r = cmd \<and> output r = out
           \<and> success r =
               (\<not> sublist ''error'' (lower out) \<and> \<not> sublist ''invalid'' (lower out)
                \<and> \<not> sublist ''failed'' (lower out) \<and> \<not> sublist ''incorrect'' (lower out)
                \<and> \<not> sublist ''%'' (lower out))
           \<and> error r = (if success r then None else Some ErrorInOutput)"
  using assms
  by (simp add: execute_command_def Let_def failure_keywords_def contains_sublist)

lemma prompt_send:
  "fst (send_command (session [Data ''Router(config)#'' 20] []) ''hostname R1'' 10000)
     = Returned ''Router(config)#''"
  by (simp add: run_defs)

lemma rejected_send:
  "fst (send_command (session [Data ''% Invalid input detected'' 20] []) ''hostnam R1'' 10000)
     = Returned ''% Invalid input detected''"
  by (simp add: run_defs)

theorem classification_witness:
  "fst (send_command (session [Data ''Router(config)#'' 20] []) ''hostname R1'' 10000)
     = Returned ''Router(config)#''
   \<and> (\<exists>r. fst (execute_command (session [Data ''Router(config)#'' 20] []) ''hostname R1'' 10000)
            = Returned r \<and> success r \<and> error r = None)
   \<and> fst (send_command (session [Data ''% Invalid input detected'' 20] []) ''hostnam R1'' 10000)
     = Returned ''% Invalid input detected''
   \<and> (\<exists>r. fst (execute_command (session [Data ''% Invalid input detected'' 20] [])
                 ''hostnam R1'' 10000)
            = Returned r \<and> \<not> success r \<and> error r = Some ErrorInOutput)"
proof -
  let ?c1 = "session [Data ''Router(config)#'' 20] []"
  let ?c2 = "session [Data ''% Invalid input detected'' 20] []"
  have h1: "send_command ?c1 ''hostname R1'' 10000
              = (Returned ''Router(config)#'', snd (send_command ?c1 ''hostname R1'' 10000))"
    using prompt_send by (metis prod.collapse)
  have h2: "send_command ?c2 ''hostnam R1'' 10000
              = (Returned ''% Invalid input detected'', snd (send_command ?c2 ''hostnam R1'' 10000))"
    using rejected_send by (metis prod.collapse)
  from classification_by_failure_keywords[OF h1] obtain r1 where
    r1: "execute_command ?c1 ''hostname R1'' 10000
           = (Returned r1, snd (send_command ?c1 ''hostname R1'' 10000))"
        "success r1 =
               (\<not> sublist ''error'' (lower ''Router(config)#'') \<and> \<not> sublist ''invalid'' (lower ''Router(config)#'')
                \<and> \<not> sublist ''failed'' (lower ''Router(config)#'') \<and> \<not> sublist ''incorrect'' (lower ''Router(config)#'')
                \<and> \<not> sublist ''%'' (lower ''Router(config)#''))"
        "error r1 = (if success r1 then None else Some ErrorInOutput)" by blast
  from r1(2) have s1: "success r1"
    by (simp add: contains_sublist[symmetric] lower_char_def)
  from classification_by_failure_keywords[OF h2] obtain r2 where
    r2: "execute_command ?c2 ''hostnam R1'' 10000
           = (Returned r2, snd (send_command ?c2 ''hostnam R1'' 10000))"
        "success r2 =
               (\<not> sublist ''error'' (lower ''% Invalid input detected'') \<and> \<not> sublist ''invalid'' (lower ''% Invalid input detected'')
                \<and> \<not> sublist ''failed'' (lower ''% Invalid input detected'') \<and> \<not> sublist ''incorrect'' (lower ''% Invalid input detected'')
                \<and> \<not> sublist ''%'' (lower ''% Invalid input detected''))"
        "error r2 = (if success r2 then None else Some ErrorInOutput)" by blast
  from r2(2) have s2: "\<not> success r2"
    by (simp add: contains_sublist[symmetric] lower_char_def)
  from r1(1) r1(3) s1 have a: "\<exists>r. fst (execute_command ?c1 ''hostname R1'' 10000)
            = Returned r \<and> success r \<and> error r = None" by simp
  from r2(1) r2(3) s2 have b: "\<exists>r. fst (execute_command ?c2 ''hostnam R1'' 10000)
            = Returned r \<and> \<not> success r \<and> error r = Some ErrorInOutput" by simp
  from a b prompt_send rejected_send show ?thesis by blast
qed

text \<open>A device that stays silent: the read loop runs out of its window.\<close>

lemma silent_read_loop:
  "incoming c = [] \<Longrightarrow> \<not> has_prompt out \<Longrightarrow> read_loop tmo elapsed out c = (None, out, c)"
proof (induction tmo elapsed out c rule: read_loop.induct)
  case (1 tmo elapsed out c)
  then show ?case by (subst read_loop.simps) simp
qed

lemma silent_device_never_times_out:
  assumes "stdin c" and "stdout c" and "faults c = []" and "incoming c = []"
  shows "fst (execute_command c cmd tmo)
           = Returned \<lparr>success = True, command = cmd, output = [], error = None\<rparr>"
  using assms
  by (simp add: execute_command_def send_command_def and_then_def print_log_def sleep_def
      effect_def stdin_write_def read_until_timeout_def silent_read_loop has_prompt_def
      failure_keywords_def)

text \<open>
  C2. On an established session whose device sends nothing, the read loop of
  \<^verbatim>\<open>hostname R1\<close> runs through its window of ten seconds without a prompt
  terminator; \<^verbatim>\<open>_read_until_timeout\<close> returns the empty output and
  \<^verbatim>\<open>execute_command\<close> reports the command as successful, with no failure reason.
\<close>

theorem window_exhausted_is_reported_success:
  "fst (execute_command (session [] []) ''hostname R1'' 10000)
     = Returned \<lparr>success = True, command = ''hostname R1'', output = [], error = None\<rparr>"
  by (simp add: run_defs)

text \<open>
  C1. A Cisco batch in which both entry commands succeed and the \<^verbatim>\<open>print\<close> of the
  filtered main commands raises: the report of the \<^verbatim>\<open>except\<close> clause carries the two
  successful results and \<^verbatim>\<open>successful_commands = 0\<close>.
\<close>

theorem exception_path_reports_zero_successes:
  "fst (execute_commands (session cisco_device print_fails) [accented_command] CISCO_IOS 1000)
     = Returned partial_report
   \<and> rep_error partial_report = Some ''codec cannot encode character''
   \<and> successful_commands partial_report = 0
   \<and> length (filter success (results partial_report)) = 2"
  by (simp add: run_defs partial_report_def)

section \<open>The device type\<close>

text \<open>
  The conversion in full: one of the four values, compared after lower-casing, gives its
  member and nothing is printed; any other string runs the handler, and the type is
  \<^verbatim>\<open>CISCO_IOS\<close> if the handler's log line is printed, and the exception of that
  \<^verbatim>\<open>print\<close> otherwise.
\<close>

lemma convert_device_type_cases:
  "convert_device_type s c =
     (if lower s = ''cisco_ios'' then (Returned CISCO_IOS, c)
      else if lower s = ''juniper_junos'' then (Returned JUNIPER_JUNOS, c)
      else if lower s = ''huawei'' then (Returned HUAWEI, c)
      else if lower s = ''mikrotik'' then (Returned MIKROTIK, c)
      else and_then (print_log c) (\<lambda>_ c'. (Returned CISCO_IOS, c')))"
  by (simp add: convert_device_type_def EquipmentType_of_def)

lemma convert_device_type_logged:
  assumes "print_log c = (Returned u, c')"
  shows "fst (convert_device_type s c) =
           Returned (if lower s = ''cisco_ios'' then CISCO_IOS
                     else if lower s = ''juniper_junos'' then JUNIPER_JUNOS
                     else if lower s = ''huawei'' then HUAWEI
                     else if lower s = ''mikrotik'' then MIKROTIK
                     else CISCO_IOS)"
  using assms by (simp add: convert_device_type_cases and_then_def)

lemma convert_device_type_examples:
  "fst (convert_device_type ''Juniper_JunOS'' c) = Returned JUNIPER_JUNOS"
  "fst (convert_device_type (''mi'' @ [CHR 0xE2, CHR 0x84, CHR 0xAA] @ ''rotik'') c) = Returned MIKROTIK"
  "fst (convert_device_type ''cisco'' (session [] [])) = Returned CISCO_IOS"
  by (simp_all add: convert_device_type_def EquipmentType_of_def lower_char_def
      and_then_def print_log_def effect_def session_def)

text \<open>
  C8. The identifier \<^verbatim>\<open>cisco\<close> is none of the four values. On a console that cannot
  encode the log line of the handler, the \<^verbatim>\<open>print\<close> raises before \<^verbatim>\<open>CISCO_IOS\<close> is
  assigned: the conversion gives no type, and the exception leaves
  \<^verbatim>\<open>execute_commands_ssh\<close> before anything is connected or sent.
\<close>

theorem unknown_type_log_line_raises:
  "EquipmentType_of (lower ''cisco'') = None
   \<and> fst (convert_device_type ''cisco''
            (new_client ''192.0.2.1'' ''admin'' ''secret'' [] ascii_console))
       = Raised (OtherException ''ascii codec cannot encode characters'')
   \<and> execute_commands_ssh [] ascii_console [''show version'']
         ''192.0.2.1'' ''admin'' ''secret'' ''cisco''
       = (Raised (OtherException ''ascii codec cannot encode characters''),
          new_client ''192.0.2.1'' ''admin'' ''secret'' [] [])"
  by (simp add: execute_commands_ssh_def convert_device_type_def EquipmentType_of_def
      lower_char_def and_then_def print_log_def effect_def new_client_def ascii_console_def)

section \<open>The validator\<close>

text \<open>Each loop appends the warnings of the specification's description to the list it is given.\<close>

lemma pattern_loop_appends:
  "pattern_loop rules cmd ws =
     ws @ (if has_read_only_marker cmd then []
           else map (\<lambda>rule. warning (snd rule) cmd)
                  (filter (\<lambda>rule. re_search (fst rule) (lower cmd)) rules))"
proof (induction rules arbitrary: ws)
  case Nil
  then show ?case by simp
next
  case (Cons rule rules)
  obtain pat description where r: "rule = (pat, description)" by (cases rule)
  show ?case unfolding r by (simp add: Cons.IH has_read_only_marker_def)
qed

lemma command_loop_appends:
  "command_loop rules cmds ws = ws @ expected_warnings rules cmds"
proof (induction cmds arbitrary: ws)
  case Nil
  then show ?case by (simp add: expected_warnings_def)
next
  case (Cons cmd cmds)
  show ?case
    by (simp add: Cons.IH pattern_loop_appends expected_warnings_def)
qed

text \<open>
  C9. \<^verbatim>\<open>validate_commands\<close> is a function of the command list and the equipment type
  alone. Its warnings are those of \<open>expected_warnings\<close>: for each command in order that
  contains no read-only marker, one warning for each dangerous pattern of the profile
  that matches the lower-cased command, in the order of the patterns; a command with a
  read-only marker gives none. \<^verbatim>\<open>is_safe\<close> holds exactly when there is no warning, and
  the count is the number of warnings.
\<close>

theorem validate_commands_warnings:
  "warnings (validate_commands commands et) = expected_warnings (dangerous_patterns et) commands
   \<and> is_safe (validate_commands commands et) = (warnings (validate_commands commands et) = [])
   \<and> dangerous_commands_count (validate_commands commands et)
       = length (warnings (validate_commands commands et))"
  by (simp add: validate_commands_def Let_def command_loop_appends)

text \<open>Two verdicts, computed.\<close>

lemma validate_example_cisco:
  "validate_commands [''no shutdown'', ''show running-config | include shutdown'', ''Reload'',
       ''reloading'', ''interface Gi0/1''] CISCO_IOS
     = \<lparr>is_safe = False,
        warnings =
          [''WARNING: Enabling an interface (no shutdown): no shutdown'',
           ''WARNING: Disabling an interface (shutdown): no shutdown'',
           ''WARNING: Reloading the equipment (reload): Reload''],
        dangerous_commands_count = 3\<rparr>"
  by code_simp

lemma validate_example_safe:
  "validate_commands [''/system resource print'', ''/ip address add address=10.0.0.1/24''] MIKROTIK
     = \<lparr>is_safe = True, warnings = [], dangerous_commands_count = 0\<rparr>"
  by code_simp

end
